theory Spec2Isabelle
  imports Main
begin

section \<open>fsplayer: constants\<close>

text \<open>
  The constants of \<^verbatim>\<open>fsplayer.c\<close> (the X11 build) and of \<^verbatim>\<open>win32/main.cpp\<close>.
  Play times are \<^verbatim>\<open>libvlc_time_t\<close>, a signed 64-bit count of milliseconds;
  volumes, counters and error codes are C \<^verbatim>\<open>int\<close>, 32 bits wide on both builds.
  Values are modelled as \<open>int\<close>, and every addition and subtraction of the program
  takes its result back into the width of its type: \<open>int32\<close> and \<open>int64\<close> are
  the two's complement wrap-around, which is what the machine computes where the
  mathematical result does not fit.
\<close>

definition INT_MIN :: int where "INT_MIN = - 2147483648"
definition INT_MAX :: int where "INT_MAX = 2147483647"

definition int32 :: "int \<Rightarrow> int" where
  "int32 x = (x + 2147483648) mod 4294967296 - 2147483648"

definition int64 :: "int \<Rightarrow> int" where
  "int64 x = (x + 9223372036854775808) mod 18446744073709551616 - 9223372036854775808"

definition FSPLAYER_10SEC :: int where "FSPLAYER_10SEC = 10000"
definition FSPLAYER_1MIN :: int where "FSPLAYER_1MIN = 60000"
definition FSPLAYER_10MIN :: int where "FSPLAYER_10MIN = 600000"

definition ERROR_FSPLAYER_USAGE :: int where "ERROR_FSPLAYER_USAGE = 1"
definition ERROR_FSPLAYER_X11 :: int where "ERROR_FSPLAYER_X11 = 2"
definition ERROR_FSPLAYER_VLC :: int where "ERROR_FSPLAYER_VLC = 3"
definition ERROR_FSPLAYER_FAIL :: int where "ERROR_FSPLAYER_FAIL = 4"
definition ERROR_FSPLAYER_MEM :: int where "ERROR_FSPLAYER_MEM = 5"
definition ERROR_FSPLAYER_VLCRUN :: int where "ERROR_FSPLAYER_VLCRUN = 6"

text \<open>
  \<^verbatim>\<open>libvlc_state_t\<close> comes from the header of the playback engine, which is not part
  of the repository: NothingSpecial = 0, Opening, Buffering, Playing, Paused,
  Stopped = 5, Ended = 6, Error = 7.
\<close>

definition libvlc_Playing :: int where "libvlc_Playing = 3"
definition libvlc_Stopped :: int where "libvlc_Stopped = 5"
definition libvlc_Ended :: int where "libvlc_Ended = 6"
definition libvlc_Error :: int where "libvlc_Error = 7"

type_synonym window = nat

section \<open>Calls into the collaborators\<close>

text \<open>
  The playback engine and the windowing system are external. What the program asks of
  them while it dispatches input is recorded as a list of calls, in the order the
  program issues them; what they answer is an input of the model.
  \<open>ArrayReadOutOfBounds i\<close> marks a read of \<^verbatim>\<open>pVlcAudioTrackId[i]\<close> outside the array.
  The calls of the teardown carry the handle they are given: a pointer is a number,
  0 for \<^verbatim>\<open>NULL\<close>.
\<close>

datatype call =
    libvlc_media_player_set_time int
  | libvlc_audio_set_volume int
  | libvlc_audio_set_track int
  | libvlc_media_player_pause
  | libvlc_media_player_stop
  | PositionWindow_call window int
  | XRaiseWindow window
  | XSetInputFocus window
  | Hide
  | Application_Terminate
  | ArrayReadOutOfBounds int
  | TaskbarRaise_call nat window
  | libvlc_media_player_release nat
  | libvlc_release nat
  | free nat
  | XDestroyWindow nat window
  | XCloseDisplay nat

text \<open>What the engine answers to \<^verbatim>\<open>libvlc_media_player_get_time\<close> and
  \<^verbatim>\<open>libvlc_audio_get_volume\<close> at the moment an event is handled.\<close>

record player_obs =
  ob_time :: int
  ob_volume :: int

section \<open>The transport commands\<close>

text \<open>
  The bodies of the key branches. Both builds repeat the same statements for the
  three step sizes; the step is a parameter here.

  Backward (DOWN, LEFT, PAGE DOWN):
  \<^verbatim>\<open>if (iTimeMs <= STEP) iTimeMs = 0; else iTimeMs -= STEP; set_time(iTimeMs);\<close>
\<close>

definition seek_backward :: "int \<Rightarrow> int \<Rightarrow> int" where
  "seek_backward step iTimeMs = (if iTimeMs \<le> step then 0 else int64 (iTimeMs - step))"

text \<open>
  Forward by one or ten minutes (UP, PAGE UP): nothing is set unless the current
  time is before the last ten seconds.
  \<^verbatim>\<open>if (iTimeMs < iEndTimeMs - FSPLAYER_10SEC) {
     if (iTimeMs < iEndTimeMs - STEP) iTimeMs += STEP;
     else iTimeMs = iEndTimeMs - FSPLAYER_10SEC;
     set_time(iTimeMs); }\<close>
\<close>

definition seek_forward :: "int \<Rightarrow> int \<Rightarrow> int \<Rightarrow> int option" where
  "seek_forward step iEndTimeMs iTimeMs =
     (if iTimeMs < int64 (iEndTimeMs - FSPLAYER_10SEC)
      then Some (if iTimeMs < int64 (iEndTimeMs - step) then int64 (iTimeMs + step)
                 else int64 (iEndTimeMs - FSPLAYER_10SEC))
      else None)"

text \<open>
  RIGHT: \<^verbatim>\<open>iTimeMs = get_time() + FSPLAYER_10SEC; if (iTimeMs < iEndTimeMs) set_time(iTimeMs);\<close>
\<close>

definition seek_right :: "int \<Rightarrow> int \<Rightarrow> int option" where
  "seek_right iEndTimeMs cur =
     (let iTimeMs = int64 (cur + FSPLAYER_10SEC)
      in if iTimeMs < iEndTimeMs then Some iTimeMs else None)"

text \<open>END: \<^verbatim>\<open>iTimeMs = iEndTimeMs - FSPLAYER_10SEC; set_time(iTimeMs);\<close>\<close>

definition seek_end :: "int \<Rightarrow> int" where
  "seek_end iEndTimeMs = int64 (iEndTimeMs - FSPLAYER_10SEC)"

definition set_time_calls :: "int option \<Rightarrow> call list" where
  "set_time_calls r = (case r of None \<Rightarrow> [] | Some t \<Rightarrow> [libvlc_media_player_set_time t])"

text \<open>
  Volume. X11 build: \<^verbatim>\<open>iRet = get_volume() - 10; if (iRet < 0) iRet = 0;\<close>
  Win32 build: \<^verbatim>\<open>i = get_volume() - 10; if (i < 1) i = 1;\<close>
  Both: \<^verbatim>\<open>i = get_volume() + 10; if (i > 100) i = 100;\<close>
\<close>

datatype build = X11 | Win32

definition volume_floor :: "build \<Rightarrow> int" where
  "volume_floor b = (case b of X11 \<Rightarrow> 0 | Win32 \<Rightarrow> 1)"

definition volume_down :: "build \<Rightarrow> int \<Rightarrow> int" where
  "volume_down b vol =
     (let i = int32 (vol - 10) in if i < volume_floor b then volume_floor b else i)"

definition volume_up :: "int \<Rightarrow> int" where
  "volume_up vol = (let i = int32 (vol + 10) in if i > 100 then 100 else i)"

text \<open>
  Audio track. The id list is the array \<^verbatim>\<open>pVlcAudioTrackId\<close>; a read outside it is
  undefined in C and is reported as such.
  X11 build: \<^verbatim>\<open>iVlcAudioTrack++; if (iVlcAudioTrack == iNumVlcAudioTracks) iVlcAudioTrack = 0;\<close>
  Win32 build: \<^verbatim>\<open>giVlcAudioTrack++; if (giVlcAudioTrack >= giNumVlcAudioTracks) giVlcAudioTrack = 0;\<close>
\<close>

definition next_track :: "build \<Rightarrow> int \<Rightarrow> int \<Rightarrow> int" where
  "next_track b n cur =
     (let c = int32 (cur + 1)
      in case b of X11 \<Rightarrow> (if c = n then 0 else c)
                 | Win32 \<Rightarrow> (if c \<ge> n then 0 else c))"

definition set_track_call :: "int list \<Rightarrow> int \<Rightarrow> call" where
  "set_track_call ids i =
     (if 0 \<le> i \<and> nat i < length ids then libvlc_audio_set_track (ids ! nat i)
      else ArrayReadOutOfBounds i)"

section \<open>Input router of the X11 build\<close>

text \<open>
  The key-code table: what \<^verbatim>\<open>XKeysymToKeycode\<close> returned for each key, 0 when the
  key is not bound.
\<close>

record keycodes =
  kcDown :: nat
  kcEnd :: nat
  kcEsc :: nat
  kcHome :: nat
  kcKpBegin :: nat
  kcKpDown :: nat
  kcKpEnd :: nat
  kcKpHome :: nat
  kcKpLeft :: nat
  kcKpMinus :: nat
  kcKpMult :: nat
  kcKpPageDown :: nat
  kcKpPageUp :: nat
  kcKpPlus :: nat
  kcKpRight :: nat
  kcKpUp :: nat
  kcLeft :: nat
  kcPgDown :: nat
  kcPgUp :: nat
  kcRight :: nat
  kcSpace :: nat
  kcUp :: nat

text \<open>The variables of \<^verbatim>\<open>main\<close> that the event loop reads and writes.\<close>

record session =
  iRunning :: int
  iErr :: int
  iEndTimeMs :: int
  iNumVlcAudioTracks :: int
  iVlcAudioTrack :: int
  pVlcAudioTrackId :: "int list"
  wVlc :: window
  wMaster :: window
  wInput :: window
  wInputMaster :: window

datatype xkey =
    K_Down | K_End | K_Esc | K_Home | K_KpBegin | K_KpDown | K_KpEnd | K_KpHome
  | K_KpLeft | K_KpMinus | K_KpMult | K_KpPageDown | K_KpPageUp | K_KpPlus
  | K_KpRight | K_KpUp | K_Left | K_PgDown | K_PgUp | K_Right | K_Space | K_Up
  | K_Unhandled

text \<open>
  The chain \<^verbatim>\<open>if (kcDown && keycode == kcDown) ... else if (kcEnd && ...) ...\<close> in the
  order of the source: the first branch whose test holds is taken. The test of the
  keypad multiply branch includes \<^verbatim>\<open>iNumVlcAudioTracks > 1\<close>.
\<close>

definition dispatch :: "keycodes \<Rightarrow> session \<Rightarrow> nat \<Rightarrow> xkey" where
  "dispatch kc s keycode =
    (if kcDown kc \<noteq> 0 \<and> keycode = kcDown kc then K_Down
     else if kcEnd kc \<noteq> 0 \<and> keycode = kcEnd kc then K_End
     else if kcEsc kc \<noteq> 0 \<and> keycode = kcEsc kc then K_Esc
     else if kcHome kc \<noteq> 0 \<and> keycode = kcHome kc then K_Home
     else if kcKpBegin kc \<noteq> 0 \<and> keycode = kcKpBegin kc then K_KpBegin
     else if kcKpDown kc \<noteq> 0 \<and> keycode = kcKpDown kc then K_KpDown
     else if kcKpEnd kc \<noteq> 0 \<and> keycode = kcKpEnd kc then K_KpEnd
     else if kcKpHome kc \<noteq> 0 \<and> keycode = kcKpHome kc then K_KpHome
     else if kcKpLeft kc \<noteq> 0 \<and> keycode = kcKpLeft kc then K_KpLeft
     else if kcKpMinus kc \<noteq> 0 \<and> keycode = kcKpMinus kc then K_KpMinus
     else if kcKpMult kc \<noteq> 0 \<and> keycode = kcKpMult kc \<and> iNumVlcAudioTracks s > 1
       then K_KpMult
     else if kcKpPageDown kc \<noteq> 0 \<and> keycode = kcKpPageDown kc then K_KpPageDown
     else if kcKpPageUp kc \<noteq> 0 \<and> keycode = kcKpPageUp kc then K_KpPageUp
     else if kcKpPlus kc \<noteq> 0 \<and> keycode = kcKpPlus kc then K_KpPlus
     else if kcKpRight kc \<noteq> 0 \<and> keycode = kcKpRight kc then K_KpRight
     else if kcKpUp kc \<noteq> 0 \<and> keycode = kcKpUp kc then K_KpUp
     else if kcLeft kc \<noteq> 0 \<and> keycode = kcLeft kc then K_Left
     else if kcPgDown kc \<noteq> 0 \<and> keycode = kcPgDown kc then K_PgDown
     else if kcPgUp kc \<noteq> 0 \<and> keycode = kcPgUp kc then K_PgUp
     else if kcRight kc \<noteq> 0 \<and> keycode = kcRight kc then K_Right
     else if kcSpace kc \<noteq> 0 \<and> keycode = kcSpace kc then K_Space
     else if kcUp kc \<noteq> 0 \<and> keycode = kcUp kc then K_Up
     else K_Unhandled)"

text \<open>The body of each branch: the new variables and the calls issued.\<close>

fun perform :: "xkey \<Rightarrow> session \<Rightarrow> player_obs \<Rightarrow> session \<times> call list" where
  "perform K_Down s ob =
     (s, [libvlc_media_player_set_time (seek_backward FSPLAYER_1MIN (ob_time ob))])"
| "perform K_End s ob = (s, [libvlc_media_player_set_time (seek_end (iEndTimeMs s))])"
| "perform K_Esc s ob = (s\<lparr>iRunning := 0\<rparr>, [])"
| "perform K_Home s ob = (s, [libvlc_media_player_set_time 0])"
| "perform K_KpBegin s ob = (s, [PositionWindow_call (wMaster s) 5])"
| "perform K_KpDown s ob = (s, [PositionWindow_call (wMaster s) 2])"
| "perform K_KpEnd s ob = (s, [PositionWindow_call (wMaster s) 1])"
| "perform K_KpHome s ob = (s, [PositionWindow_call (wMaster s) 7])"
| "perform K_KpLeft s ob = (s, [PositionWindow_call (wMaster s) 4])"
| "perform K_KpMinus s ob = (s, [libvlc_audio_set_volume (volume_down X11 (ob_volume ob))])"
| "perform K_KpMult s ob =
     (let c = next_track X11 (iNumVlcAudioTracks s) (iVlcAudioTrack s)
      in (s\<lparr>iVlcAudioTrack := c\<rparr>, [set_track_call (pVlcAudioTrackId s) c]))"
| "perform K_KpPageDown s ob = (s, [PositionWindow_call (wMaster s) 3])"
| "perform K_KpPageUp s ob = (s, [PositionWindow_call (wMaster s) 9])"
| "perform K_KpPlus s ob = (s, [libvlc_audio_set_volume (volume_up (ob_volume ob))])"
| "perform K_KpRight s ob = (s, [PositionWindow_call (wMaster s) 6])"
| "perform K_KpUp s ob = (s, [PositionWindow_call (wMaster s) 8])"
| "perform K_Left s ob =
     (s, [libvlc_media_player_set_time (seek_backward FSPLAYER_10SEC (ob_time ob))])"
| "perform K_PgDown s ob =
     (s, [libvlc_media_player_set_time (seek_backward FSPLAYER_10MIN (ob_time ob))])"
| "perform K_PgUp s ob =
     (s, set_time_calls (seek_forward FSPLAYER_10MIN (iEndTimeMs s) (ob_time ob)))"
| "perform K_Right s ob = (s, set_time_calls (seek_right (iEndTimeMs s) (ob_time ob)))"
| "perform K_Space s ob = (s, [libvlc_media_player_pause])"
| "perform K_Up s ob =
     (s, set_time_calls (seek_forward FSPLAYER_1MIN (iEndTimeMs s) (ob_time ob)))"
| "perform K_Unhandled s ob = (s, [])"

definition KeyPress :: "keycodes \<Rightarrow> session \<Rightarrow> nat \<Rightarrow> player_obs \<Rightarrow> session \<times> call list" where
  "KeyPress kc s keycode ob = perform (dispatch kc s keycode) s ob"

text \<open>
  One pass of the inner loop \<^verbatim>\<open>while (XPending(...)) { XNextEvent(...); ... }\<close>: every
  pending event is handled, also those that follow an escape key press.
\<close>

datatype xevent = KeyPress_event nat | ButtonRelease_event | Other_event

fun handle_event :: "keycodes \<Rightarrow> session \<Rightarrow> xevent \<Rightarrow> player_obs \<Rightarrow> session \<times> call list" where
  "handle_event kc s (KeyPress_event keycode) ob = KeyPress kc s keycode ob"
| "handle_event kc s ButtonRelease_event ob =
     (s, [XRaiseWindow (wMaster s), XSetInputFocus (wInput s)])"
| "handle_event kc s Other_event ob = (s, [])"

fun drain :: "keycodes \<Rightarrow> session \<Rightarrow> (xevent \<times> player_obs) list \<Rightarrow> session \<times> call list" where
  "drain kc s [] = (s, [])"
| "drain kc s ((ev, ob) # rest) =
     (let (s1, c1) = handle_event kc s ev ob;
          (s2, c2) = drain kc s1 rest
      in (s2, c1 @ c2))"

text \<open>
  What one cycle of the event loop observes: the pending events (each with the
  engine's answers at that moment), then the answers to
  \<^verbatim>\<open>libvlc_media_player_get_state\<close>, \<^verbatim>\<open>libvlc_media_player_get_time\<close> and
  \<^verbatim>\<open>XGetInputFocus\<close> after the events are drained.
\<close>

record cycle_obs =
  co_events :: "(xevent \<times> player_obs) list"
  co_state :: int
  co_time :: int
  co_focus :: window

definition check_state :: "session \<Rightarrow> cycle_obs \<Rightarrow> session" where
  "check_state s obs =
     (if iRunning s \<noteq> 0
      then (if co_state obs \<ge> libvlc_Stopped then s\<lparr>iRunning := 0\<rparr> else s)
      else s)"

definition check_time :: "session \<Rightarrow> cycle_obs \<Rightarrow> session" where
  "check_time s obs =
     (if iRunning s \<noteq> 0
      then (let iTimeMs = co_time obs;
                s1 = (if iTimeMs < 0 then s\<lparr>iErr := ERROR_FSPLAYER_VLC\<rparr> else s)
            in if iErr s1 = 0
               then (if iTimeMs \<ge> iEndTimeMs s1 then s1\<lparr>iRunning := 0\<rparr> else s1)
               else s1)
      else s)"

definition check_focus :: "session \<Rightarrow> cycle_obs \<Rightarrow> call list" where
  "check_focus s obs =
     (if iRunning s \<noteq> 0
      then (if co_focus obs = wVlc s \<or> co_focus obs = wMaster s
            then [XRaiseWindow (wInputMaster s), XRaiseWindow (wMaster s),
                  XSetInputFocus (wInput s)]
            else [])
      else [])"

definition poll_cycle :: "keycodes \<Rightarrow> session \<Rightarrow> cycle_obs \<Rightarrow> session \<times> call list" where
  "poll_cycle kc s obs =
     (let (s1, c1) = drain kc s (co_events obs);
          s2 = check_state s1 obs;
          s3 = check_time s2 obs
      in (s3, c1 @ check_focus s3 obs))"

text \<open>
  The loop \<^verbatim>\<open>while (iRunning && !iErr)\<close> over the cycles the environment offers. The
  loop has no bound of its own: it runs for as long as the media plays. The model runs
  it over a finite list of observed cycles and stops early when the loop condition
  fails; the cycles after that are never looked at.
\<close>

definition running :: "session \<Rightarrow> bool" where
  "running s = (iRunning s \<noteq> 0 \<and> iErr s = 0)"

fun poll_loop :: "keycodes \<Rightarrow> session \<Rightarrow> cycle_obs list \<Rightarrow> session \<times> call list" where
  "poll_loop kc s [] = (s, [])"
| "poll_loop kc s (obs # rest) =
     (if running s
      then (let (s1, c1) = poll_cycle kc s obs;
                (s2, c2) = poll_loop kc s1 rest
            in (s2, c1 @ c2))
      else (s, []))"

section \<open>Input router of the Win32 build\<close>

text \<open>The global variables of \<^verbatim>\<open>win32/main.cpp\<close> that \<^verbatim>\<open>FormKeyDown\<close> uses.\<close>

record globals =
  giState :: int
  giEndTimeMs :: int
  giNumVlcAudioTracks :: int
  giVlcAudioTrack :: int
  gpVlcAudioTrackId :: "int list"

datatype vkey =
    vkDown | vkEnd | vkEscape | vkHome | vkSubtract | vkAdd | vkLeft | vkPrior
  | vkMultiply | vkNext | vkRight | vkSpace | vkUp | vkOther nat

fun FormKeyDown :: "vkey \<Rightarrow> globals \<Rightarrow> player_obs \<Rightarrow> globals \<times> call list" where
  "FormKeyDown vkDown g ob =
     (g, [libvlc_media_player_set_time (seek_backward FSPLAYER_1MIN (ob_time ob))])"
| "FormKeyDown vkEnd g ob = (g, [libvlc_media_player_set_time (seek_end (giEndTimeMs g))])"
| "FormKeyDown vkEscape g ob =
     (g\<lparr>giState := 0\<rparr>, [Hide, libvlc_media_player_stop, Application_Terminate])"
| "FormKeyDown vkHome g ob = (g, [libvlc_media_player_set_time 0])"
| "FormKeyDown vkSubtract g ob =
     (g, [libvlc_audio_set_volume (volume_down Win32 (ob_volume ob))])"
| "FormKeyDown vkAdd g ob = (g, [libvlc_audio_set_volume (volume_up (ob_volume ob))])"
| "FormKeyDown vkLeft g ob =
     (g, [libvlc_media_player_set_time (seek_backward FSPLAYER_10SEC (ob_time ob))])"
| "FormKeyDown vkPrior g ob =
     (g, set_time_calls (seek_forward FSPLAYER_10MIN (giEndTimeMs g) (ob_time ob)))"
| "FormKeyDown vkMultiply g ob =
     (if giNumVlcAudioTracks g > 1
      then (let c = next_track Win32 (giNumVlcAudioTracks g) (giVlcAudioTrack g)
            in (g\<lparr>giVlcAudioTrack := c\<rparr>, [set_track_call (gpVlcAudioTrackId g) c]))
      else (g, []))"
| "FormKeyDown vkNext g ob =
     (g, [libvlc_media_player_set_time (seek_backward FSPLAYER_10MIN (ob_time ob))])"
| "FormKeyDown vkRight g ob = (g, set_time_calls (seek_right (giEndTimeMs g) (ob_time ob)))"
| "FormKeyDown vkSpace g ob = (g, [libvlc_media_player_pause])"
| "FormKeyDown vkUp g ob =
     (g, set_time_calls (seek_forward FSPLAYER_1MIN (giEndTimeMs g) (ob_time ob)))"
| "FormKeyDown (vkOther k) g ob = (g, [])"


section \<open>Exit conditions of the event loop, as the specification words them\<close>

text \<open>
  The escape key is pressed in a cycle when a key-press event carries the key code
  bound to escape (an unbound key, code 0, never matches). A cycle observes an exit
  condition when escape is pressed, or the engine's state is at or beyond
  \<open>libvlc_Stopped\<close>, or the play time is negative, or the play time has reached the
  end time.
\<close>

definition escape_pressed :: "keycodes \<Rightarrow> cycle_obs \<Rightarrow> bool" where
  "escape_pressed kc obs =
     (kcEsc kc \<noteq> 0 \<and> KeyPress_event (kcEsc kc) \<in> fst ` set (co_events obs))"

definition exit_observed :: "keycodes \<Rightarrow> int \<Rightarrow> cycle_obs \<Rightarrow> bool" where
  "exit_observed kc iEnd obs =
     (escape_pressed kc obs \<or> co_state obs \<ge> libvlc_Stopped
      \<or> co_time obs < 0 \<or> co_time obs \<ge> iEnd)"


section \<open>The windowing system\<close>

text \<open>
  The X server is external; the model keeps what the program can ask it and what the
  program's requests change. A window is its id, and 0 is \<^verbatim>\<open>None\<close>.
  \<^item> \<open>xs_tree w\<close> is the answer to \<^verbatim>\<open>XQueryTree\<close>: root, parent and the list of
    children in the order the server enumerates them; \<open>None\<close> when the call fails.
  \<^item> \<open>xs_property w name type\<close> is the answer to
    \<^verbatim>\<open>XGetWindowProperty(w, name, 0, 4, 0, type, ...)\<close>: the data as the C string
    that \<^verbatim>\<open>strcmp\<close> reads, \<open>None\<close> when the call fails or returns no data.
  \<^item> \<open>xs_attr w\<close> holds the geometry and the attributes of a window that exists.
  \<^item> \<open>xs_stack\<close> is the stacking order, the topmost window last.
  \<^item> \<open>xs_motif_hints\<close> and \<open>xs_sent\<close> record the decoration hints set and the
    client messages sent (destination, window, message type, data).
  \<^item> \<open>xs_atom\<close> is \<^verbatim>\<open>XInternAtom\<close>, 0 for \<^verbatim>\<open>None\<close>.
  A request on a window that does not exist changes nothing.
\<close>

datatype map_state = IsUnmapped | IsUnviewable | IsViewable

record xattr =
  wa_x :: int
  wa_y :: int
  wa_width :: nat
  wa_height :: nat
  wa_override_redirect :: bool
  wa_map_state :: map_state

record xserver =
  xs_tree :: "window \<Rightarrow> (window \<times> window \<times> window list) option"
  xs_property :: "window \<Rightarrow> nat \<Rightarrow> nat \<Rightarrow> string option"
  xs_attr :: "window \<Rightarrow> xattr option"
  xs_stack :: "window list"
  xs_motif_hints :: "window \<Rightarrow> nat list option"
  xs_sent :: "(window \<times> window \<times> nat \<times> nat list) list"
  xs_atom :: "string \<Rightarrow> nat"

definition XQueryTree :: "xserver \<Rightarrow> window \<Rightarrow> (window \<times> window \<times> window list) option" where
  "XQueryTree X w = xs_tree X w"

definition XGetWindowProperty :: "xserver \<Rightarrow> window \<Rightarrow> nat \<Rightarrow> nat \<Rightarrow> string option" where
  "XGetWindowProperty X w aName aType = xs_property X w aName aType"

definition XInternAtom :: "xserver \<Rightarrow> string \<Rightarrow> nat" where
  "XInternAtom X name = xs_atom X name"

definition XGetWindowAttributes :: "xserver \<Rightarrow> window \<Rightarrow> xattr option" where
  "XGetWindowAttributes X w = xs_attr X w"

definition XGetGeometry :: "xserver \<Rightarrow> window \<Rightarrow> xattr option" where
  "XGetGeometry X w = xs_attr X w"

definition XMoveWindow :: "xserver \<Rightarrow> window \<Rightarrow> int \<Rightarrow> int \<Rightarrow> xserver" where
  "XMoveWindow X w x y =
     (case xs_attr X w of
        None \<Rightarrow> X
      | Some a \<Rightarrow> X\<lparr>xs_attr := (xs_attr X)(w \<mapsto> a\<lparr>wa_x := x, wa_y := y\<rparr>)\<rparr>)"



definition XUnmapWindow :: "xserver \<Rightarrow> window \<Rightarrow> xserver" where
  "XUnmapWindow X w =
     (case xs_attr X w of
        None \<Rightarrow> X
      | Some a \<Rightarrow> X\<lparr>xs_attr := (xs_attr X)(w \<mapsto> a\<lparr>wa_map_state := IsUnmapped\<rparr>)\<rparr>)"

definition XMapRaised :: "xserver \<Rightarrow> window \<Rightarrow> xserver" where
  "XMapRaised X w =
     (case xs_attr X w of
        None \<Rightarrow> X
      | Some a \<Rightarrow> X\<lparr>xs_attr := (xs_attr X)(w \<mapsto> a\<lparr>wa_map_state := IsViewable\<rparr>),
                   xs_stack := filter (\<lambda>v. v \<noteq> w) (xs_stack X) @ [w]\<rparr>)"



section \<open>Window tree walker\<close>

text \<open>
  The outputs \<^verbatim>\<open>*pReturn\<close> and \<^verbatim>\<open>*pMaster\<close> of \<^verbatim>\<open>FindX11Window\<close>, and the windows
  whose property the search has read so far, in the order of the reads.
\<close>

record xfind =
  pReturn :: window
  pMaster :: window
  queried :: "window list"

text \<open>
  The loop over the children:
  \<^verbatim>\<open>for (i = 0 ; i < nChildren && !iFound ; i++)
     if (pChildren[i] != w && pChildren[i] != wRoot && pChildren[i] != wParent) {
        if (w == wRoot) *pMaster = pChildren[i];
        iFound = FindX11Window(pX11Display, pChildren[i], ...); }\<close>
  The recursive call is the parameter \<open>search\<close>; \<open>None\<close> is a call that does not
  return.
\<close>

fun FindX11Window_children ::
  "(window \<Rightarrow> xfind \<Rightarrow> (bool \<times> xfind) option) \<Rightarrow> window \<Rightarrow> window \<Rightarrow> window
     \<Rightarrow> window list \<Rightarrow> xfind \<Rightarrow> (bool \<times> xfind) option"
where
  "FindX11Window_children search w wRoot wParent [] st = Some (False, st)"
| "FindX11Window_children search w wRoot wParent (c # cs) st =
     (if c \<noteq> w \<and> c \<noteq> wRoot \<and> c \<noteq> wParent
      then (case search c (if w = wRoot then st\<lparr>pMaster := c\<rparr> else st) of
              None \<Rightarrow> None
            | Some (iFound, st') \<Rightarrow>
                if iFound then Some (True, st')
                else FindX11Window_children search w wRoot wParent cs st')
      else FindX11Window_children search w wRoot wParent cs st)"

text \<open>
  \<^verbatim>\<open>FindX11Window\<close> is recursive over whatever the server answers, and nothing in it
  bounds the recursion. The first argument bounds the depth of the calls: \<open>None\<close>
  is a search that needs a deeper recursion than that.
\<close>

primrec FindX11Window ::
  "nat \<Rightarrow> xserver \<Rightarrow> window \<Rightarrow> nat \<Rightarrow> nat \<Rightarrow> string \<Rightarrow> xfind \<Rightarrow> (bool \<times> xfind) option"
where
  "FindX11Window 0 X w aName aType szValue st = None"
| "FindX11Window (Suc depth) X w aName aType szValue st =
     (let st1 = st\<lparr>queried := queried st @ [w]\<rparr>;
          iFound = (case XGetWindowProperty X w aName aType of
                      None \<Rightarrow> False
                    | Some pProperty \<Rightarrow> pProperty = szValue)
      in if iFound then Some (True, st1\<lparr>pReturn := w\<rparr>)
         else (case XQueryTree X w of
                 None \<Rightarrow> Some (False, st1)
               | Some (wRoot, wParent, pChildren) \<Rightarrow>
                   FindX11Window_children
                     (\<lambda>c s. FindX11Window depth X c aName aType szValue s)
                     w wRoot wParent pChildren st1))"

section \<open>Placement of the floating window\<close>

text \<open>
  \<^verbatim>\<open>PositionWindow\<close>. The subtractions are on \<^verbatim>\<open>unsigned int\<close> and are only reached
  when the window is smaller than the screen, so they do not wrap.
\<close>

definition PositionWindow :: "xserver \<Rightarrow> window \<Rightarrow> int \<Rightarrow> nat \<Rightarrow> nat \<Rightarrow> xserver" where
  "PositionWindow X w iKeypadPos scrx scry =
     (case XGetGeometry X w of
        None \<Rightarrow> X
      | Some g \<Rightarrow>
          let iWidth = wa_width g; iHeight = wa_height g
          in if iWidth < scrx \<and> iHeight < scry
             then (let x = (if iKeypadPos = 1 \<or> iKeypadPos = 4 \<or> iKeypadPos = 7 then 0
                            else if iKeypadPos = 3 \<or> iKeypadPos = 6 \<or> iKeypadPos = 9
                              then int (scrx - iWidth)
                            else int ((scrx - iWidth) div 2));
                       y = (if iKeypadPos = 7 \<or> iKeypadPos = 8 \<or> iKeypadPos = 9 then 0
                            else if iKeypadPos = 1 \<or> iKeypadPos = 2 \<or> iKeypadPos = 3
                              then int (scry - iHeight)
                            else int ((scry - iHeight) div 2))
                   in XMoveWindow X w x y)
             else X)"

section \<open>Taskbar suppressor\<close>

text \<open>
  \<^verbatim>\<open>TaskbarFindAndUnmap\<close> returns the server after its requests and \<^verbatim>\<open>*pTaskbar\<close>;
  the depth bound is that of the search.
\<close>

definition TaskbarFindAndUnmap :: "nat \<Rightarrow> xserver \<Rightarrow> window \<Rightarrow> (xserver \<times> window) option" where
  "TaskbarFindAndUnmap depth X wRoot =
     (let aName = XInternAtom X ''WM_NAME'';
          aTypeStr = XInternAtom X ''STRING'';
          st0 = \<lparr>pReturn = 0, pMaster = 0, queried = []\<rparr>
      in case (if aName \<noteq> 0 \<and> aTypeStr \<noteq> 0
               then FindX11Window depth X wRoot aName aTypeStr ''xload'' st0
               else Some (False, st0)) of
           None \<Rightarrow> None
         | Some (iFound, st) \<Rightarrow>
             let wXload = pReturn st; wMaster = pMaster st
             in if wXload \<noteq> 0
                then (case XGetWindowAttributes X wMaster of
                        None \<Rightarrow> Some (X, 0)
                      | Some attrib \<Rightarrow>
                          if wa_override_redirect attrib \<and> wa_map_state attrib = IsViewable
                          then Some (XUnmapWindow X wMaster, wMaster)
                          else Some (X, 0))
                else Some (X, 0))"

definition TaskbarRaise :: "xserver \<Rightarrow> window \<Rightarrow> xserver" where
  "TaskbarRaise X wTaskbar = (if wTaskbar \<noteq> 0 then XMapRaised X wTaskbar else X)"

section \<open>Fullscreen coercion\<close>





section \<open>Window hierarchies\<close>

text \<open>
  A finite window hierarchy, as the walker expects to find it: a tree of
  windows, each with its id, the name property the server returns for it and its list
  of children in enumeration order. An entry \<open>Back b\<close> in a list of children is a
  link that is not a child of the tree: the server lists the window \<open>b\<close> there
  although it is met elsewhere.
\<close>

datatype wtree = WNode window "string option" "wtree list" | Back window

fun entry_id :: "wtree \<Rightarrow> window" where
  "entry_id (WNode w nm ks) = w"
| "entry_id (Back b) = b"

text \<open>The windows of a hierarchy, parents before children, children in list order.\<close>

fun nodes :: "wtree \<Rightarrow> window list" where
  "nodes (WNode w nm ks) = w # concat (map nodes ks)"
| "nodes (Back b) = []"

text \<open>The windows whose name property equals the searched value, in the same order.\<close>

fun matching :: "string \<Rightarrow> wtree \<Rightarrow> window list" where
  "matching v (WNode w nm ks) = (if nm = Some v then [w] else []) @ concat (map (matching v) ks)"
| "matching v (Back b) = []"

fun levels :: "wtree \<Rightarrow> nat" where
  "levels (WNode w nm ks) = Suc (foldr max (map levels ks) 0)"
| "levels (Back b) = 0"

text \<open>
  \<open>hosts X aName aType r gp p t\<close>: the server \<open>X\<close> answers for the entry \<open>t\<close> of
  the children of the window \<open>p\<close> (whose parent is \<open>gp\<close>, under the root \<open>r\<close>) as
  the hierarchy says. A link leads back to the window itself, to the root or to the
  parent of the window.
\<close>

fun hosts :: "xserver \<Rightarrow> nat \<Rightarrow> nat \<Rightarrow> window \<Rightarrow> window \<Rightarrow> window \<Rightarrow> wtree \<Rightarrow> bool" where
  "hosts X aName aType r gp p (Back b) = (b = p \<or> b = r \<or> b = gp)"
| "hosts X aName aType r gp p (WNode w nm ks) =
     (XGetWindowProperty X w aName aType = nm
      \<and> XQueryTree X w = Some (r, p, map entry_id ks)
      \<and> (\<forall>k \<in> set ks. hosts X aName aType r p w k))"

text \<open>
  The server shows the hierarchy \<open>t\<close> below its root: the root reports itself as
  root and \<^verbatim>\<open>None\<close> as parent, no window occurs twice, and \<^verbatim>\<open>None\<close> is not a window.
\<close>

fun hierarchy :: "xserver \<Rightarrow> nat \<Rightarrow> nat \<Rightarrow> wtree \<Rightarrow> bool" where
  "hierarchy X aName aType (WNode r nm ks) =
     (XGetWindowProperty X r aName aType = nm
      \<and> XQueryTree X r = Some (r, 0, map entry_id ks)
      \<and> (\<forall>k \<in> set ks. hosts X aName aType r 0 r k)
      \<and> distinct (nodes (WNode r nm ks))
      \<and> 0 \<notin> set (nodes (WNode r nm ks)))"
| "hierarchy X aName aType (Back b) = False"

text \<open>
  The child of the root on the path from the root to the window \<open>m\<close>: the children
  of the root whose subtree holds \<open>m\<close>.
\<close>

fun root_children :: "wtree \<Rightarrow> wtree list" where
  "root_children (WNode r nm ks) = ks"
| "root_children (Back b) = []"

definition master_of :: "wtree \<Rightarrow> window \<Rightarrow> window list" where
  "master_of t m = map entry_id (filter (\<lambda>k. m \<in> set (nodes k)) (root_children t))"


section \<open>Session controller\<close>

text \<open>
  \<^verbatim>\<open>main\<close> of the X11 build: the chain of initialisation steps, each skipped once
  \<^verbatim>\<open>iErr\<close> is set, the event loop and the teardown. Everything the environment
  answers during the start is an input: the arguments, the display, the results of
  the two window searches, the handles the engine returns. A variable that
  \<^verbatim>\<open>main\<close> declares without an initialiser holds whatever the stack held:
  \<open>be_wInput_initial\<close> for \<^verbatim>\<open>wInput\<close>, \<open>be_iVlcAudioTrack_initial\<close> for
  \<^verbatim>\<open>iVlcAudioTrack\<close>.
\<close>

record boot_env =
  be_argc :: int
  be_FilenameExist :: bool
  be_XOpenDisplay :: nat
  be_FindVlcWindow_preflight :: int
  be_XCreateWindow :: window
  be_XInternAtom_ok :: bool
  be_libvlc_new :: nat
  be_libvlc_media_new_path :: nat
  be_libvlc_media_player_new_from_media :: nat
  be_libvlc_video_get_size :: int
  be_libvlc_media_player_get_length :: int
  be_libvlc_audio_get_track_count :: int
  be_malloc :: nat
  be_track_ids :: "int list"
  be_FindVlcWindow :: "int \<times> window \<times> window"
  be_FindMaster :: window
  be_TaskbarFindAndUnmap :: window
  be_libvlc_media_player_play :: int
  be_keycodes :: keycodes
  be_cycles :: "cycle_obs list"
  be_wInput_initial :: window
  be_iVlcAudioTrack_initial :: int

text \<open>The variables of \<^verbatim>\<open>main\<close> that the start writes and the teardown reads.\<close>

record mainvars =
  mv_iErr :: int
  mv_iPlay :: int
  mv_pX11Display :: nat
  mv_wInput :: window
  mv_pVlcInst :: nat
  mv_pVlcPlayer :: nat
  mv_pVlcAudioTrackId :: nat
  mv_wTaskbar :: window
  mv_iEndTimeMs :: int
  mv_iNumVlcAudioTracks :: int
  mv_wVlc :: window
  mv_wMaster :: window
  mv_wInputMaster :: window

definition main_initial :: "boot_env \<Rightarrow> mainvars" where
  "main_initial env =
     \<lparr>mv_iErr = 0, mv_iPlay = 0, mv_pX11Display = 0, mv_wInput = be_wInput_initial env,
      mv_pVlcInst = 0, mv_pVlcPlayer = 0, mv_pVlcAudioTrackId = 0, mv_wTaskbar = 0,
      mv_iEndTimeMs = 0, mv_iNumVlcAudioTracks = 0, mv_wVlc = 0, mv_wMaster = 0,
      mv_wInputMaster = 0\<rparr>"

definition main_arguments :: "boot_env \<Rightarrow> mainvars \<Rightarrow> mainvars" where
  "main_arguments env v =
     (let v1 = (if be_argc env \<noteq> 2 then v\<lparr>mv_iErr := ERROR_FSPLAYER_USAGE\<rparr> else v)
      in if mv_iErr v1 = 0
         then (if \<not> be_FilenameExist env then v1\<lparr>mv_iErr := ERROR_FSPLAYER_USAGE\<rparr> else v1)
         else v1)"

definition main_display :: "boot_env \<Rightarrow> mainvars \<Rightarrow> mainvars" where
  "main_display env v =
     (if mv_iErr v = 0
      then (let v1 = v\<lparr>mv_pX11Display := be_XOpenDisplay env\<rparr>
            in if mv_pX11Display v1 = 0 then v1\<lparr>mv_iErr := ERROR_FSPLAYER_X11\<rparr> else v1)
      else v)"

text \<open>
  The search before the engine starts: an error of \<^verbatim>\<open>FindVlcWindow\<close> means that no
  engine window exists, and finding one is the error.
\<close>

definition main_preflight :: "boot_env \<Rightarrow> mainvars \<Rightarrow> mainvars" where
  "main_preflight env v =
     (if mv_iErr v = 0
      then (if be_FindVlcWindow_preflight env \<noteq> 0 then v\<lparr>mv_iErr := 0\<rparr>
            else v\<lparr>mv_iErr := ERROR_FSPLAYER_VLCRUN\<rparr>)
      else v)"

definition main_input_window :: "boot_env \<Rightarrow> mainvars \<Rightarrow> mainvars" where
  "main_input_window env v =
     (let v1 = (if mv_iErr v = 0
                then (let v' = v\<lparr>mv_wInput := be_XCreateWindow env\<rparr>
                      in if mv_wInput v' = 0 then v'\<lparr>mv_iErr := ERROR_FSPLAYER_X11\<rparr> else v')
                else v)
      in if mv_iErr v1 = 0
         then (if \<not> be_XInternAtom_ok env then v1\<lparr>mv_iErr := ERROR_FSPLAYER_X11\<rparr> else v1)
         else v1)"

definition main_engine :: "boot_env \<Rightarrow> mainvars \<Rightarrow> mainvars" where
  "main_engine env v =
     (let v1 = (if mv_iErr v = 0
                then (let v' = v\<lparr>mv_pVlcInst := be_libvlc_new env\<rparr>
                      in if mv_pVlcInst v' = 0 then v'\<lparr>mv_iErr := ERROR_FSPLAYER_VLC\<rparr> else v')
                else v)
      in if mv_iErr v1 = 0
         then (if be_libvlc_media_new_path env \<noteq> 0
               then (let v' = v1\<lparr>mv_pVlcPlayer := be_libvlc_media_player_new_from_media env\<rparr>
                     in if mv_pVlcPlayer v' = 0 then v'\<lparr>mv_iErr := ERROR_FSPLAYER_VLC\<rparr>
                        else v')
               else v1\<lparr>mv_iErr := ERROR_FSPLAYER_VLC\<rparr>)
         else v1)"

text \<open>
  The first \<^verbatim>\<open>libvlc_media_player_play\<close>: its result is stored in \<^verbatim>\<open>iErr\<close> and then
  overwritten by the result of \<^verbatim>\<open>libvlc_video_get_size\<close>.
\<close>

definition main_metadata :: "boot_env \<Rightarrow> mainvars \<Rightarrow> mainvars" where
  "main_metadata env v =
     (let v1 = (if mv_iErr v = 0
                then (let v' = v\<lparr>mv_iPlay := 1, mv_iErr := be_libvlc_video_get_size env\<rparr>
                      in if mv_iErr v' \<noteq> 0 then v'\<lparr>mv_iErr := ERROR_FSPLAYER_VLC\<rparr> else v')
                else v);
          v2 = (if mv_iErr v1 = 0
                then (let v' = v1\<lparr>mv_iEndTimeMs := be_libvlc_media_player_get_length env\<rparr>
                      in if mv_iEndTimeMs v' \<le> 0 then v'\<lparr>mv_iErr := ERROR_FSPLAYER_VLC\<rparr>
                         else v')
                else v1)
      in if mv_iErr v2 = 0
         then (let v' = v2\<lparr>mv_iNumVlcAudioTracks := be_libvlc_audio_get_track_count env\<rparr>
               in if mv_iNumVlcAudioTracks v' > 1
                  then (let v'' = v'\<lparr>mv_pVlcAudioTrackId := be_malloc env\<rparr>
                        in if mv_pVlcAudioTrackId v'' \<noteq> 0 then v''
                           else v''\<lparr>mv_iErr := ERROR_FSPLAYER_MEM\<rparr>)
                  else v')
         else v2)"

definition main_engage :: "boot_env \<Rightarrow> mainvars \<Rightarrow> mainvars" where
  "main_engage env v =
     (let v1 = (if mv_iErr v = 0
                then (case be_FindVlcWindow env of
                        (e, wv, wm) \<Rightarrow> v\<lparr>mv_iErr := e, mv_wVlc := wv, mv_wMaster := wm\<rparr>)
                else v)
      in if mv_iErr v1 = 0
         then (let v' = v1\<lparr>mv_wInputMaster := be_FindMaster env,
                          mv_wTaskbar := be_TaskbarFindAndUnmap env,
                          mv_iErr := be_libvlc_media_player_play env\<rparr>
               in if mv_iErr v' \<noteq> 0 then v'\<lparr>mv_iErr := ERROR_FSPLAYER_VLC\<rparr> else v')
         else v1)"

definition main_start :: "boot_env \<Rightarrow> mainvars" where
  "main_start env =
     main_engage env (main_metadata env (main_engine env (main_input_window env
       (main_preflight env (main_display env (main_arguments env (main_initial env)))))))"

text \<open>
  \<^verbatim>\<open>iX11fd = ConnectionNumber(pX11Display)\<close> is executed on every path. The macro reads
  a field of the display structure, so it dereferences the pointer.
\<close>

datatype fault = NullPointerDereference

definition ConnectionNumber :: "nat \<Rightarrow> fault + int" where
  "ConnectionNumber pX11Display =
     (if pX11Display = 0 then Inl NullPointerDereference else Inr 3)"

definition main_session :: "boot_env \<Rightarrow> mainvars \<Rightarrow> session" where
  "main_session env v =
     \<lparr>iRunning = 1, iErr = mv_iErr v, iEndTimeMs = mv_iEndTimeMs v,
      iNumVlcAudioTracks = mv_iNumVlcAudioTracks v,
      iVlcAudioTrack = be_iVlcAudioTrack_initial env,
      pVlcAudioTrackId = (if mv_pVlcAudioTrackId v \<noteq> 0 then be_track_ids env else []),
      wVlc = mv_wVlc v, wMaster = mv_wMaster v, wInput = mv_wInput v,
      wInputMaster = mv_wInputMaster v\<rparr>"

text \<open>The teardown, in the order of the source; each step with the guard it has there.\<close>

definition main_teardown :: "mainvars \<Rightarrow> call list" where
  "main_teardown v =
     (if mv_iPlay v \<noteq> 0 then [libvlc_media_player_stop] else [])
     @ [TaskbarRaise_call (mv_pX11Display v) (mv_wTaskbar v)]
     @ (if mv_pVlcPlayer v \<noteq> 0 then [libvlc_media_player_release (mv_pVlcPlayer v)] else [])
     @ (if mv_pVlcInst v \<noteq> 0 then [libvlc_release (mv_pVlcInst v)] else [])
     @ (if mv_pVlcAudioTrackId v \<noteq> 0 then [free (mv_pVlcAudioTrackId v)] else [])
     @ (if mv_wInput v \<noteq> 0 then [XDestroyWindow (mv_pX11Display v) (mv_wInput v)] else [])
     @ (if mv_pX11Display v \<noteq> 0 then [XCloseDisplay (mv_pX11Display v)] else [])"

definition main :: "boot_env \<Rightarrow> fault + call list" where
  "main env =
     (let v = main_start env
      in case ConnectionNumber (mv_pX11Display v) of
           Inl f \<Rightarrow> Inl f
         | Inr iX11fd \<Rightarrow>
             (let (s, calls) = poll_loop (be_keycodes env) (main_session env v) (be_cycles env)
              in Inr (calls @ main_teardown (v\<lparr>mv_iErr := iErr s\<rparr>))))"


section \<open>Concrete inputs\<close>

text \<open>
  A key-code table as an X server with the usual PC keyboard mapping reports it, and a
  session as it stands when the event loop is entered.
\<close>

definition example_keycodes :: keycodes where
  "example_keycodes =
     \<lparr>kcDown = 116, kcEnd = 115, kcEsc = 9, kcHome = 110, kcKpBegin = 84, kcKpDown = 88,
      kcKpEnd = 87, kcKpHome = 79, kcKpLeft = 83, kcKpMinus = 82, kcKpMult = 63,
      kcKpPageDown = 89, kcKpPageUp = 81, kcKpPlus = 86, kcKpRight = 85, kcKpUp = 80,
      kcLeft = 113, kcPgDown = 117, kcPgUp = 112, kcRight = 114, kcSpace = 65, kcUp = 111\<rparr>"

definition example_session :: "int \<Rightarrow> int list \<Rightarrow> session" where
  "example_session iEnd ids =
     \<lparr>iRunning = 1, iErr = 0, iEndTimeMs = iEnd, iNumVlcAudioTracks = int (length ids),
      iVlcAudioTrack = 0, pVlcAudioTrackId = ids,
      wVlc = 40, wMaster = 30, wInput = 20, wInputMaster = 20\<rparr>"

definition example_globals :: "int \<Rightarrow> int list \<Rightarrow> globals" where
  "example_globals iEnd ids =
     \<lparr>giState = 1, giEndTimeMs = iEnd, giNumVlcAudioTracks = int (length ids),
      giVlcAudioTrack = 0, gpVlcAudioTrackId = ids\<rparr>"

text \<open>
  Two cycles of the event loop: one in which RIGHT is pressed while the engine plays,
  one in which a key press is pending and the engine has reached \<open>libvlc_Ended\<close>.
\<close>

definition example_cycle_playing :: cycle_obs where
  "example_cycle_playing =
     \<lparr>co_events = [(KeyPress_event 114, \<lparr>ob_time = 1000, ob_volume = 50\<rparr>)],
      co_state = libvlc_Playing, co_time = 11000, co_focus = 20\<rparr>"

definition example_cycle_ended :: cycle_obs where
  "example_cycle_ended =
     \<lparr>co_events = [(KeyPress_event 113, \<lparr>ob_time = 12000, ob_volume = 50\<rparr>)],
      co_state = libvlc_Ended, co_time = 12000, co_focus = 20\<rparr>"

text \<open>
  A server with the root 1, the input window 20 and a frame 30 around the engine's
  window 40; the frame and the engine's window also list the root, their parent and
  themselves among their children. The atoms are the predefined ones of X11.
\<close>

definition example_attr :: "int \<Rightarrow> int \<Rightarrow> nat \<Rightarrow> nat \<Rightarrow> xattr" where
  "example_attr x y width height =
     \<lparr>wa_x = x, wa_y = y, wa_width = width, wa_height = height,
      wa_override_redirect = False, wa_map_state = IsViewable\<rparr>"

definition example_xserver :: xserver where
  "example_xserver =
     \<lparr>xs_tree = (\<lambda>w. if w = 1 then Some (1, 0, [20, 30])
                     else if w = 20 then Some (1, 1, [])
                     else if w = 30 then Some (1, 1, [1, 40])
                     else if w = 40 then Some (1, 30, [30, 40, 1])
                     else None),
      xs_property = (\<lambda>w aName aType.
                     if aName = 39 \<and> aType = 31
                     then (if w = 20 then Some ''fsplayer''
                           else if w = 40 then Some ''VLC media player''
                           else None)
                     else None),
      xs_attr = (\<lambda>w. if w = 1 then Some (example_attr 0 0 1920 1080)
                     else if w = 20 then Some (example_attr 0 0 1920 1080)
                     else if w = 30 then Some (example_attr 3 4 646 504)
                     else if w = 40 then Some (example_attr 3 21 640 480)
                     else None),
      xs_stack = [1, 20, 30, 40],
      xs_motif_hints = (\<lambda>w. None),
      xs_sent = [],
      xs_atom = (\<lambda>name. if name = ''STRING'' then 31
                        else if name = ''WM_NAME'' then 39
                        else if name = ''_MOTIF_WM_HINTS'' then 300
                        else if name = ''_NET_WM_STATE'' then 301
                        else if name = ''_NET_WM_STATE_FULLSCREEN'' then 302
                        else 0)\<rparr>"

definition example_tree :: wtree where
  "example_tree =
     WNode 1 None
       [WNode 20 (Some ''fsplayer'') [],
        WNode 30 None
          [Back 1, WNode 40 (Some ''VLC media player'') [Back 30, Back 40, Back 1]]]"

text \<open>
  A start in which every step succeeds: a media of 125 s with one audio track, played
  for two cycles of the event loop. The uninitialised variables hold arbitrary
  numbers.
\<close>

definition example_env :: boot_env where
  "example_env =
     \<lparr>be_argc = 2, be_FilenameExist = True, be_XOpenDisplay = 7,
      be_FindVlcWindow_preflight = ERROR_FSPLAYER_FAIL, be_XCreateWindow = 20,
      be_XInternAtom_ok = True, be_libvlc_new = 8, be_libvlc_media_new_path = 9,
      be_libvlc_media_player_new_from_media = 10, be_libvlc_video_get_size = 0,
      be_libvlc_media_player_get_length = 125000, be_libvlc_audio_get_track_count = 1,
      be_malloc = 11, be_track_ids = [], be_FindVlcWindow = (0, 40, 30),
      be_FindMaster = 20, be_TaskbarFindAndUnmap = 0, be_libvlc_media_player_play = 0,
      be_keycodes = example_keycodes,
      be_cycles = [example_cycle_playing, example_cycle_ended],
      be_wInput_initial = 4196432, be_iVlcAudioTrack_initial = 32767\<rparr>"

text \<open>
  A media with the three audio tracks 2, 5 and 7, and a cycle of the event loop in
  which keypad multiply is pressed once.
\<close>

definition example_cycle_multiply :: cycle_obs where
  "example_cycle_multiply =
     \<lparr>co_events = [(KeyPress_event 63, \<lparr>ob_time = 1000, ob_volume = 50\<rparr>)],
      co_state = libvlc_Playing, co_time = 1000, co_focus = 20\<rparr>"

definition example_env_tracks :: boot_env where
  "example_env_tracks =
     example_env\<lparr>be_libvlc_audio_get_track_count := 3, be_track_ids := [2, 5, 7],
                 be_cycles := [example_cycle_multiply]\<rparr>"


section \<open>Properties: volume and audio track\<close>

lemma int32_id: "INT_MIN \<le> x \<Longrightarrow> x \<le> INT_MAX \<Longrightarrow> int32 x = x"
  by (simp add: int32_def INT_MIN_def INT_MAX_def)

lemma int32_below:
  "INT_MIN - 4294967296 \<le> x \<Longrightarrow> x < INT_MIN \<Longrightarrow> int32 x = x + 4294967296"
proof -
  assume a: "INT_MIN - 4294967296 \<le> x" "x < INT_MIN"
  have "(x + 2147483648) mod 4294967296 = (x + 2147483648 + 4294967296) mod 4294967296"
    by (simp only: mod_add_self2)
  also have "\<dots> = x + 2147483648 + 4294967296"
    using a by (intro mod_pos_pos_trivial) (simp_all add: INT_MIN_def)
  finally show ?thesis by (simp add: int32_def)
qed

lemma int32_above:
  "INT_MAX < x \<Longrightarrow> x \<le> INT_MAX + 4294967296 \<Longrightarrow> int32 x = x - 4294967296"
proof -
  assume a: "INT_MAX < x" "x \<le> INT_MAX + 4294967296"
  have "(x + 2147483648) mod 4294967296 = (x + 2147483648 - 4294967296) mod 4294967296"
    by (simp only: minus_mod_self2)
  also have "\<dots> = x + 2147483648 - 4294967296"
    using a by (intro mod_pos_pos_trivial) (simp_all add: INT_MAX_def)
  finally show ?thesis by (simp add: int32_def)
qed

lemma volume_floor_bounds: "0 \<le> volume_floor b" "volume_floor b \<le> 1"
  by (simp_all add: volume_floor_def split: build.splits)

lemma volume_down_plain:
  assumes "INT_MIN + 10 \<le> v" "v \<le> INT_MAX"
  shows "volume_down b v = max (volume_floor b) (v - 10)"
proof -
  have "int32 (v - 10) = v - 10"
    using assms by (intro int32_id) (simp_all add: INT_MAX_def)
  then show ?thesis by (simp add: volume_down_def Let_def max_def)
qed

lemma volume_up_plain:
  assumes "INT_MIN \<le> v" "v \<le> INT_MAX - 10"
  shows "volume_up v = min 100 (v + 10)"
proof -
  have "int32 (v + 10) = v + 10"
    using assms by (intro int32_id) (simp_all add: INT_MIN_def)
  then show ?thesis by (simp add: volume_up_def Let_def min_def)
qed

lemma volume_down_wrapped:
  assumes "INT_MIN \<le> v" "v < INT_MIN + 10"
  shows "volume_down b v = v - 10 + 4294967296"
proof -
  have "int32 (v - 10) = v - 10 + 4294967296"
    using assms by (intro int32_below) (simp_all add: INT_MIN_def)
  moreover have "\<not> v - 10 + 4294967296 < volume_floor b"
    using assms(1) volume_floor_bounds(2) [of b] by (simp add: INT_MIN_def)
  ultimately show ?thesis by (simp add: volume_down_def Let_def)
qed

lemma volume_up_wrapped:
  assumes "INT_MAX - 10 < v" "v \<le> INT_MAX"
  shows "volume_up v = v + 10 - 4294967296"
proof -
  have "int32 (v + 10) = v + 10 - 4294967296"
    using assms by (intro int32_above) (simp_all add: INT_MAX_def)
  moreover have "\<not> v + 10 - 4294967296 > 100"
    using assms(2) by (simp add: INT_MAX_def)
  ultimately show ?thesis by (simp add: volume_up_def Let_def)
qed

lemma volume_down_reaches:
  "INT_MIN + 10 \<le> v \<Longrightarrow> v \<le> INT_MAX \<Longrightarrow> v - volume_floor b \<le> 10 * int k \<Longrightarrow> 0 < k
     \<Longrightarrow> (volume_down b ^^ k) v = volume_floor b"
proof (induction k arbitrary: v)
  case 0
  then show ?case by simp
next
  case (Suc k)
  have p: "volume_down b v = max (volume_floor b) (v - 10)"
    using Suc.prems(1,2) by (rule volume_down_plain)
  show ?case
  proof (cases "k = 0")
    case True
    with Suc.prems(3) p show ?thesis by (simp add: max_def)
  next
    case False
    have 1: "INT_MIN + 10 \<le> volume_down b v"
      using p volume_floor_bounds(1) [of b] by (simp add: INT_MIN_def max_def)
    have 2: "volume_down b v \<le> INT_MAX"
      using p Suc.prems(2) volume_floor_bounds(2) [of b] by (simp add: INT_MAX_def max_def)
    have 3: "volume_down b v - volume_floor b \<le> 10 * int k"
      using p Suc.prems(3) by (simp add: max_def)
    from Suc.IH [OF 1 2 3] False
    have "(volume_down b ^^ k) (volume_down b v) = volume_floor b" by simp
    then show ?thesis by (simp add: funpow_swap1)
  qed
qed

lemma volume_up_reaches:
  "INT_MIN \<le> v \<Longrightarrow> v \<le> INT_MAX - 10 \<Longrightarrow> 100 - v \<le> 10 * int k \<Longrightarrow> 0 < k
     \<Longrightarrow> (volume_up ^^ k) v = 100"
proof (induction k arbitrary: v)
  case 0
  then show ?case by simp
next
  case (Suc k)
  have p: "volume_up v = min 100 (v + 10)"
    using Suc.prems(1,2) by (rule volume_up_plain)
  show ?case
  proof (cases "k = 0")
    case True
    with Suc.prems(3) p show ?thesis by (simp add: min_def)
  next
    case False
    have 1: "INT_MIN \<le> volume_up v"
      using p Suc.prems(1) by (simp add: INT_MIN_def min_def)
    have 2: "volume_up v \<le> INT_MAX - 10"
      using p by (simp add: INT_MAX_def min_def)
    have 3: "100 - volume_up v \<le> 10 * int k"
      using p Suc.prems(3) by (simp add: min_def)
    from Suc.IH [OF 1 2 3] False
    have "(volume_up ^^ k) (volume_up v) = 100" by simp
    then show ?thesis by (simp add: funpow_swap1)
  qed
qed

lemma volume_down_eventually:
  assumes "INT_MIN \<le> v" "v \<le> INT_MAX" "268435456 < j"
  shows "(volume_down b ^^ j) v = volume_floor b"
proof (cases "INT_MIN + 10 \<le> v")
  case True
  have "v - volume_floor b \<le> 10 * int j"
    using assms(2,3) volume_floor_bounds(1) [of b] by (simp add: INT_MAX_def)
  with True assms(2) show ?thesis
    using assms(3) by (intro volume_down_reaches) simp_all
next
  case False
  then have w: "volume_down b v = v - 10 + 4294967296"
    using assms(1) by (intro volume_down_wrapped) simp_all
  from assms(3) obtain i where j: "j = Suc i" and i: "268435456 \<le> i"
    by (cases j) simp_all
  have "(volume_down b ^^ i) (v - 10 + 4294967296) = volume_floor b"
  proof (rule volume_down_reaches)
    show "INT_MIN + 10 \<le> v - 10 + 4294967296" using assms(1) by (simp add: INT_MIN_def)
    show "v - 10 + 4294967296 \<le> INT_MAX" using False by (simp add: INT_MIN_def INT_MAX_def)
    show "v - 10 + 4294967296 - volume_floor b \<le> 10 * int i"
      using False i volume_floor_bounds(1) [of b] by (simp add: INT_MIN_def)
    show "0 < i" using i by simp
  qed
  with w show ?thesis by (simp add: j funpow_swap1)
qed

lemma volume_up_eventually:
  assumes "INT_MIN \<le> v" "v \<le> INT_MAX" "268435456 < j"
  shows "(volume_up ^^ j) v = 100"
proof (cases "v \<le> INT_MAX - 10")
  case True
  have "100 - v \<le> 10 * int j"
    using assms(1,3) by (simp add: INT_MIN_def)
  with True assms(1) show ?thesis
    using assms(3) by (intro volume_up_reaches) simp_all
next
  case False
  then have w: "volume_up v = v + 10 - 4294967296"
    using assms(2) by (intro volume_up_wrapped) simp_all
  from assms(3) obtain i where j: "j = Suc i" and i: "268435456 \<le> i"
    by (cases j) simp_all
  have "(volume_up ^^ i) (v + 10 - 4294967296) = 100"
  proof (rule volume_up_reaches)
    show "INT_MIN \<le> v + 10 - 4294967296" using False by (simp add: INT_MIN_def INT_MAX_def)
    show "v + 10 - 4294967296 \<le> INT_MAX - 10" using assms(2) by (simp add: INT_MAX_def)
    show "100 - (v + 10 - 4294967296) \<le> 10 * int i"
      using False i by (simp add: INT_MAX_def)
    show "0 < i" using i by simp
  qed
  with w show ?thesis by (simp add: j funpow_swap1)
qed

text \<open>
  C7. The volume is a C \<^verbatim>\<open>int\<close>. A decrease sets \<open>max floor (v - 10)\<close>, with floor 0
  on the X11 build and 1 on the Win32 build, and an increase sets
  \<open>min 100 (v + 10)\<close>, wherever \<open>v - 10\<close> and \<open>v + 10\<close> are values of the type. With
  the engine reporting the volume last set, from every starting volume repeated
  decreases reach the floor and stay there, and repeated increases reach 100 and stay
  there: after more than \<open>2^28\<close> presses whatever the start, after \<open>|v| + 10\<close>
  presses when no step leaves the type. A decrease at the floor and an increase at
  100 change nothing.
\<close>

theorem volume_step_and_clamp:
  assumes "INT_MIN \<le> v" "v \<le> INT_MAX" "268435456 < j"
  shows "(volume_down b ^^ j) v = volume_floor b
       \<and> (volume_up ^^ j) v = 100
       \<and> (INT_MIN + 10 \<le> v \<longrightarrow> volume_down b v = max (volume_floor b) (v - 10))
       \<and> (v \<le> INT_MAX - 10 \<longrightarrow> volume_up v = min 100 (v + 10))
       \<and> (INT_MIN + 10 \<le> v \<and> nat \<bar>v\<bar> + 10 \<le> i \<longrightarrow> (volume_down b ^^ i) v = volume_floor b)
       \<and> (v \<le> INT_MAX - 10 \<and> nat \<bar>v\<bar> + 10 \<le> i \<longrightarrow> (volume_up ^^ i) v = 100)
       \<and> volume_down b (volume_floor b) = volume_floor b
       \<and> volume_up 100 = 100
       \<and> volume_floor X11 = 0 \<and> volume_floor Win32 = 1
       \<and> snd (perform K_KpMinus s ob) = [libvlc_audio_set_volume (volume_down X11 (ob_volume ob))]
       \<and> snd (perform K_KpPlus s ob) = [libvlc_audio_set_volume (volume_up (ob_volume ob))]
       \<and> snd (FormKeyDown vkSubtract g ob) = [libvlc_audio_set_volume (volume_down Win32 (ob_volume ob))]
       \<and> snd (FormKeyDown vkAdd g ob) = [libvlc_audio_set_volume (volume_up (ob_volume ob))]"
proof -
  have d: "(volume_down b ^^ j) v = volume_floor b"
    using assms by (rule volume_down_eventually)
  have u: "(volume_up ^^ j) v = 100"
    using assms by (rule volume_up_eventually)
  have s1: "INT_MIN + 10 \<le> v \<longrightarrow> volume_down b v = max (volume_floor b) (v - 10)"
    using assms(2) by (simp add: volume_down_plain)
  have s2: "v \<le> INT_MAX - 10 \<longrightarrow> volume_up v = min 100 (v + 10)"
    using assms(1) by (simp add: volume_up_plain)
  have t1: "INT_MIN + 10 \<le> v \<and> nat \<bar>v\<bar> + 10 \<le> i \<longrightarrow> (volume_down b ^^ i) v = volume_floor b"
  proof
    assume h: "INT_MIN + 10 \<le> v \<and> nat \<bar>v\<bar> + 10 \<le> i"
    then have i: "0 < i" "\<bar>v\<bar> + 10 \<le> int i" by linarith+
    have "v - volume_floor b \<le> 10 * int i"
      using i volume_floor_bounds(1) [of b] by linarith
    with h assms(2) i(1) show "(volume_down b ^^ i) v = volume_floor b"
      by (intro volume_down_reaches) simp_all
  qed
  have t2: "v \<le> INT_MAX - 10 \<and> nat \<bar>v\<bar> + 10 \<le> i \<longrightarrow> (volume_up ^^ i) v = 100"
  proof
    assume h: "v \<le> INT_MAX - 10 \<and> nat \<bar>v\<bar> + 10 \<le> i"
    then have i: "0 < i" "\<bar>v\<bar> + 10 \<le> int i" by linarith+
    have "100 - v \<le> 10 * int i" using i by linarith
    with h assms(1) i(1) show "(volume_up ^^ i) v = 100"
      by (intro volume_up_reaches) simp_all
  qed
  have b1: "volume_down b (volume_floor b) = volume_floor b"
    using volume_floor_bounds [of b]
    by (simp add: volume_down_plain INT_MIN_def INT_MAX_def max_def)
  have b2: "volume_up 100 = 100"
    by (simp add: volume_up_plain INT_MIN_def INT_MAX_def)
  have f: "volume_floor X11 = 0 \<and> volume_floor Win32 = 1"
    by (simp add: volume_floor_def)
  from d u s1 s2 t1 t2 b1 b2 f show ?thesis by simp
qed

theorem volume_step_and_clamp_witness:
  "INT_MIN \<le> 35 \<and> 35 \<le> INT_MAX \<and> (268435456::nat) < 268435457
   \<and> INT_MIN + 10 \<le> 35 \<and> 35 \<le> INT_MAX - 10 \<and> nat \<bar>35::int\<bar> + 10 \<le> 45
   \<and> volume_down Win32 35 = 25 \<and> volume_up 35 = 45
   \<and> (volume_down Win32 ^^ 45) 35 = 1 \<and> (volume_up ^^ 45) 35 = 100
   \<and> (volume_down X11 ^^ 45) 35 = 0
   \<and> (volume_down X11 ^^ 268435457) 35 = 0 \<and> (volume_up ^^ 268435457) 35 = 100"
proof -
  have h: "INT_MIN \<le> 35" "35 \<le> INT_MAX" "(268435456::nat) < 268435457"
    by (simp_all add: INT_MIN_def INT_MAX_def)
  have r: "INT_MIN + 10 \<le> 35" "35 \<le> INT_MAX - 10" "nat \<bar>35::int\<bar> + 10 \<le> 45"
    by (simp_all add: INT_MIN_def INT_MAX_def)
  note w = volume_step_and_clamp [OF h, where b = Win32 and i = 45]
  note x = volume_step_and_clamp [OF h, where b = X11 and i = 45]
  have 1: "volume_down Win32 35 = 25" "volume_up 35 = 45"
    using w r by simp_all
  have 2: "(volume_down Win32 ^^ 45) 35 = 1" "(volume_up ^^ 45) 35 = 100"
    using w r by simp_all
  have 3: "(volume_down X11 ^^ 45) 35 = 0"
    "(volume_down X11 ^^ 268435457) 35 = 0" "(volume_up ^^ 268435457) 35 = 100"
    using x r by simp_all
  from h r 1 2 3 show ?thesis by simp
qed

lemma next_track_mod:
  assumes "1 < n" "0 \<le> c" "c < n" "n \<le> INT_MAX"
  shows "next_track b n c = (c + 1) mod n"
proof -
  have w: "int32 (c + 1) = c + 1"
    using assms by (intro int32_id) (simp_all add: INT_MIN_def)
  have nt: "next_track b n c =
      (case b of X11 \<Rightarrow> (if c + 1 = n then 0 else c + 1)
               | Win32 \<Rightarrow> (if c + 1 \<ge> n then 0 else c + 1))"
    by (simp add: next_track_def w Let_def)
  show ?thesis
  proof (cases "c + 1 = n")
    case True
    then show ?thesis by (simp add: nt split: build.splits)
  next
    case False
    with assms have "c + 1 < n" by simp
    with assms have "(c + 1) mod n = c + 1" by simp
    with \<open>c + 1 < n\<close> False show ?thesis
      by (simp add: nt split: build.splits)
  qed
qed

lemma next_track_iter:
  assumes "1 < n" "0 \<le> c" "c < n" "n \<le> INT_MAX"
  shows "(next_track b n ^^ k) c = (c + int k) mod n"
proof (induction k)
  case 0
  with assms show ?case by simp
next
  case (Suc k)
  have "0 \<le> (c + int k) mod n" "(c + int k) mod n < n" using assms by simp_all
  with assms(1,4) have "next_track b n ((c + int k) mod n) = ((c + int k) mod n + 1) mod n"
    by (simp add: next_track_mod)
  also have "\<dots> = (c + int k + 1) mod n"
    by (rule mod_add_left_eq)
  also have "\<dots> = (c + int (Suc k)) mod n"
  proof -
    have "c + int k + 1 = c + int (Suc k)" by simp
    then show ?thesis by (simp only:)
  qed
  finally show ?case using Suc by simp
qed
lemma next_track_round:
  assumes "1 < n" "0 \<le> c" "c < n" "n \<le> INT_MAX"
  shows "(next_track b n ^^ nat n) c = c"
proof -
  have "(next_track b n ^^ nat n) c = (c + int (nat n)) mod n"
    using assms by (rule next_track_iter)
  also have "int (nat n) = n" using assms(1) by simp
  also have "(c + n) mod n = c" using assms(2,3) by simp
  finally show ?thesis .
qed

lemma next_track_index:
  assumes "1 < n" "0 \<le> c" "c < n" "int (length ids) = n"
  shows "0 \<le> (c + 1) mod n \<and> nat ((c + 1) mod n) < length ids"
proof -
  have 1: "0 \<le> (c + 1) mod n" using assms(1) by simp
  have "(c + 1) mod n < n" using assms(1) by simp
  then have "(c + 1) mod n < int (length ids)" by (simp only: assms(4))
  with 1 have "nat ((c + 1) mod n) < length ids" by linarith
  with 1 show ?thesis by simp
qed

lemma example_dispatch_mult:
  "1 < iNumVlcAudioTracks s \<Longrightarrow> dispatch example_keycodes s 63 = K_KpMult"
  by (simp add: dispatch_def example_keycodes_def)

lemma perform_other_track:
  "key \<noteq> K_KpMult \<Longrightarrow>
     iVlcAudioTrack (fst (perform key s ob)) = iVlcAudioTrack s
     \<and> libvlc_audio_set_track i \<notin> set (snd (perform key s ob))
     \<and> ArrayReadOutOfBounds i \<notin> set (snd (perform key s ob))"
  by (cases key) (simp_all add: set_time_calls_def split: option.splits)

lemma if_neq: "(c \<Longrightarrow> a \<noteq> k) \<Longrightarrow> (\<not> c \<Longrightarrow> b \<noteq> k) \<Longrightarrow> (if c then a else b) \<noteq> k"
  by simp

lemma dispatch_no_mult:
  "iNumVlcAudioTracks s \<le> 1 \<Longrightarrow> dispatch kc s keycode \<noteq> K_KpMult"
  unfolding dispatch_def
  by (intro if_neq) simp_all

text \<open>
  The advance on a cursor that is an index of the id list. With \<open>n > 1\<close> tracks and
  \<open>0 \<le> c < n\<close>, a press of keypad multiply moves the cursor to \<open>(c + 1) mod n\<close>
  and selects the id at that index, on both builds; \<open>n\<close> presses bring the cursor
  back to \<open>c\<close>. With \<open>n \<le> 1\<close> no key press changes the cursor or selects a track.
  For the ids 2, 5, 7 and the cursor at 0, three presses select 5, 7 and 2.
\<close>

lemma next_track_cyclic_on_index:
  "(1 < n \<and> 0 \<le> c \<and> c < n \<and> int (length ids) = n \<and> n \<le> INT_MAX \<longrightarrow>
      next_track b n c = (c + 1) mod n
    \<and> (next_track b n ^^ nat n) c = c
    \<and> (iNumVlcAudioTracks s = n \<and> iVlcAudioTrack s = c \<and> pVlcAudioTrackId s = ids \<longrightarrow>
         perform K_KpMult s ob =
           (s\<lparr>iVlcAudioTrack := (c + 1) mod n\<rparr>,
            [libvlc_audio_set_track (ids ! nat ((c + 1) mod n))]))
    \<and> (giNumVlcAudioTracks g = n \<and> giVlcAudioTrack g = c \<and> gpVlcAudioTrackId g = ids \<longrightarrow>
         FormKeyDown vkMultiply g ob =
           (g\<lparr>giVlcAudioTrack := (c + 1) mod n\<rparr>,
            [libvlc_audio_set_track (ids ! nat ((c + 1) mod n))])))
   \<and> (iNumVlcAudioTracks s \<le> 1 \<longrightarrow>
        iVlcAudioTrack (fst (KeyPress kc s keycode ob)) = iVlcAudioTrack s
      \<and> libvlc_audio_set_track i \<notin> set (snd (KeyPress kc s keycode ob))
      \<and> ArrayReadOutOfBounds i \<notin> set (snd (KeyPress kc s keycode ob)))
   \<and> (giNumVlcAudioTracks g \<le> 1 \<longrightarrow> FormKeyDown vkMultiply g ob = (g, []))
   \<and> snd (drain example_keycodes (example_session 125000 [2, 5, 7])
            [(KeyPress_event 63, ob), (KeyPress_event 63, ob), (KeyPress_event 63, ob)])
       = [libvlc_audio_set_track 5, libvlc_audio_set_track 7, libvlc_audio_set_track 2]"
proof -
  have B: "perform K_KpMult s ob =
           (s\<lparr>iVlcAudioTrack := (c + 1) mod n\<rparr>,
            [libvlc_audio_set_track (ids ! nat ((c + 1) mod n))])"
    if h: "1 < n" "0 \<le> c" "c < n" "int (length ids) = n" and m: "n \<le> INT_MAX"
      and g: "iNumVlcAudioTracks s = n" "iVlcAudioTrack s = c" "pVlcAudioTrackId s = ids"
  proof -
    have "next_track X11 n c = (c + 1) mod n" using h(1-3) m by (rule next_track_mod)
    with next_track_index [OF h] show ?thesis
      by (simp add: g Let_def set_track_call_def)
  qed
  have C: "FormKeyDown vkMultiply g ob =
           (g\<lparr>giVlcAudioTrack := (c + 1) mod n\<rparr>,
            [libvlc_audio_set_track (ids ! nat ((c + 1) mod n))])"
    if h: "1 < n" "0 \<le> c" "c < n" "int (length ids) = n" and m: "n \<le> INT_MAX"
      and g: "giNumVlcAudioTracks g = n" "giVlcAudioTrack g = c" "gpVlcAudioTrackId g = ids"
  proof -
    have "next_track Win32 n c = (c + 1) mod n" using h(1-3) m by (rule next_track_mod)
    with next_track_index [OF h] h(1) show ?thesis
      by (simp add: g Let_def set_track_call_def)
  qed
  have D: "iVlcAudioTrack (fst (KeyPress kc s keycode ob)) = iVlcAudioTrack s
      \<and> libvlc_audio_set_track i \<notin> set (snd (KeyPress kc s keycode ob))
      \<and> ArrayReadOutOfBounds i \<notin> set (snd (KeyPress kc s keycode ob))"
    if "iNumVlcAudioTracks s \<le> 1"
    unfolding KeyPress_def
    by (rule perform_other_track) (rule dispatch_no_mult [OF that])
  have F: "snd (drain example_keycodes (example_session 125000 [2, 5, 7])
            [(KeyPress_event 63, ob), (KeyPress_event 63, ob), (KeyPress_event 63, ob)])
       = [libvlc_audio_set_track 5, libvlc_audio_set_track 7, libvlc_audio_set_track 2]"
    by (simp add: KeyPress_def example_dispatch_mult example_session_def next_track_def
        set_track_call_def int32_def Let_def)
  show ?thesis
  proof (intro conjI impI; (elim conjE)?)
    assume h: "1 < n" "0 \<le> c" "c < n" "int (length ids) = n" and m: "n \<le> INT_MAX"
    from h(1-3) m show "next_track b n c = (c + 1) mod n" by (rule next_track_mod)
    from h(1-3) m show "(next_track b n ^^ nat n) c = c" by (rule next_track_round)
    {
      assume g: "iNumVlcAudioTracks s = n" "iVlcAudioTrack s = c" "pVlcAudioTrackId s = ids"
      from B [OF h m g] show "perform K_KpMult s ob =
           (s\<lparr>iVlcAudioTrack := (c + 1) mod n\<rparr>,
            [libvlc_audio_set_track (ids ! nat ((c + 1) mod n))])" .
    }
    {
      assume g: "giNumVlcAudioTracks g = n" "giVlcAudioTrack g = c" "gpVlcAudioTrackId g = ids"
      from C [OF h m g] show "FormKeyDown vkMultiply g ob =
           (g\<lparr>giVlcAudioTrack := (c + 1) mod n\<rparr>,
            [libvlc_audio_set_track (ids ! nat ((c + 1) mod n))])" .
    }
  next
    assume "iNumVlcAudioTracks s \<le> 1"
    from D [OF this]
    show "iVlcAudioTrack (fst (KeyPress kc s keycode ob)) = iVlcAudioTrack s"
      and "libvlc_audio_set_track i \<notin> set (snd (KeyPress kc s keycode ob))"
      and "ArrayReadOutOfBounds i \<notin> set (snd (KeyPress kc s keycode ob))" by simp_all
  next
    assume "giNumVlcAudioTracks g \<le> 1"
    then show "FormKeyDown vkMultiply g ob = (g, [])" by simp
  next
    from F show "snd (drain example_keycodes (example_session 125000 [2, 5, 7])
            [(KeyPress_event 63, ob), (KeyPress_event 63, ob), (KeyPress_event 63, ob)])
       = [libvlc_audio_set_track 5, libvlc_audio_set_track 7, libvlc_audio_set_track 2]" .
  qed
qed

text \<open>
  C6 fails on the X11 build. \<^verbatim>\<open>main\<close> declares \<^verbatim>\<open>iVlcAudioTrack\<close> without an
  initialiser and never assigns it before the first \<^verbatim>\<open>iVlcAudioTrack++\<close>, and the
  cursor wraps only when it equals the number of tracks. With the ids 2, 5, 7 and
  32767 left in the variable, the first press of keypad multiply moves the cursor to
  32768 and reads the id array outside its three entries; the session then ends with
  the teardown. Had the variable held 0, the press would select the id 5, as it does
  on the Win32 build, which initialises the cursor to 0 and wraps on \<open>\<ge>\<close>.
\<close>

theorem main_audio_track_uninitialised:
  "be_iVlcAudioTrack_initial example_env_tracks = 32767
   \<and> main example_env_tracks
       = Inr [ArrayReadOutOfBounds 32768, libvlc_media_player_stop, TaskbarRaise_call 7 0,
              libvlc_media_player_release 10, libvlc_release 8, free 11,
              XDestroyWindow 7 20, XCloseDisplay 7]
   \<and> main (example_env_tracks\<lparr>be_iVlcAudioTrack_initial := 0\<rparr>)
       = Inr [libvlc_audio_set_track 5, libvlc_media_player_stop, TaskbarRaise_call 7 0,
              libvlc_media_player_release 10, libvlc_release 8, free 11,
              XDestroyWindow 7 20, XCloseDisplay 7]
   \<and> snd (FormKeyDown vkMultiply (example_globals 125000 [2, 5, 7])
            \<lparr>ob_time = 1000, ob_volume = 50\<rparr>) = [libvlc_audio_set_track 5]"
proof -
  have v: "main_start example_env_tracks =
      \<lparr>mv_iErr = 0, mv_iPlay = 1, mv_pX11Display = 7, mv_wInput = 20, mv_pVlcInst = 8,
       mv_pVlcPlayer = 10, mv_pVlcAudioTrackId = 11, mv_wTaskbar = 0,
       mv_iEndTimeMs = 125000, mv_iNumVlcAudioTracks = 3, mv_wVlc = 40, mv_wMaster = 30,
       mv_wInputMaster = 20\<rparr>"
    "main_start (example_env_tracks\<lparr>be_iVlcAudioTrack_initial := 0\<rparr>) =
      \<lparr>mv_iErr = 0, mv_iPlay = 1, mv_pX11Display = 7, mv_wInput = 20, mv_pVlcInst = 8,
       mv_pVlcPlayer = 10, mv_pVlcAudioTrackId = 11, mv_wTaskbar = 0,
       mv_iEndTimeMs = 125000, mv_iNumVlcAudioTracks = 3, mv_wVlc = 40, mv_wMaster = 30,
       mv_wInputMaster = 20\<rparr>"
    by (simp_all add: main_start_def main_initial_def main_arguments_def main_display_def
        main_preflight_def main_input_window_def main_engine_def main_metadata_def
        main_engage_def example_env_tracks_def example_env_def Let_def
        ERROR_FSPLAYER_FAIL_def)
  have e: "be_keycodes example_env_tracks = example_keycodes"
    "be_cycles example_env_tracks = [example_cycle_multiply]"
    "be_track_ids example_env_tracks = [2, 5, 7]"
    "be_iVlcAudioTrack_initial example_env_tracks = 32767"
    by (simp_all add: example_env_tracks_def example_env_def)
  have 1: "main example_env_tracks
       = Inr [ArrayReadOutOfBounds 32768, libvlc_media_player_stop, TaskbarRaise_call 7 0,
              libvlc_media_player_release 10, libvlc_release 8, free 11,
              XDestroyWindow 7 20, XCloseDisplay 7]"
    by (simp add: main_def v e ConnectionNumber_def main_session_def main_teardown_def
        running_def poll_cycle_def check_state_def check_time_def check_focus_def
        example_cycle_multiply_def KeyPress_def example_dispatch_mult next_track_def
        set_track_call_def int32_def libvlc_Playing_def libvlc_Stopped_def Let_def)
  have 2: "main (example_env_tracks\<lparr>be_iVlcAudioTrack_initial := 0\<rparr>)
       = Inr [libvlc_audio_set_track 5, libvlc_media_player_stop, TaskbarRaise_call 7 0,
              libvlc_media_player_release 10, libvlc_release 8, free 11,
              XDestroyWindow 7 20, XCloseDisplay 7]"
    by (simp add: main_def v e ConnectionNumber_def main_session_def main_teardown_def
        running_def poll_cycle_def check_state_def check_time_def check_focus_def
        example_cycle_multiply_def KeyPress_def example_dispatch_mult next_track_def
        set_track_call_def int32_def libvlc_Playing_def libvlc_Stopped_def Let_def)
  have 3: "snd (FormKeyDown vkMultiply (example_globals 125000 [2, 5, 7])
            \<lparr>ob_time = 1000, ob_volume = 50\<rparr>) = [libvlc_audio_set_track 5]"
    by (simp add: example_globals_def next_track_def set_track_call_def int32_def Let_def)
  from e(4) 1 2 3 show ?thesis by simp
qed


section \<open>Properties: seek targets\<close>


lemma set_time_calls_mem:
  "(libvlc_media_player_set_time t \<in> set (set_time_calls r)) = (r = Some t)"
  by (cases r) (auto simp: set_time_calls_def)
















section \<open>Properties: the event loop\<close>

lemma dispatch_not_esc:
  "\<not> (kcEsc kc \<noteq> 0 \<and> keycode = kcEsc kc) \<Longrightarrow> dispatch kc s keycode \<noteq> K_Esc"
  unfolding dispatch_def
  by (intro if_neq) simp_all

lemma dispatch_esc:
  assumes "kcEsc kc \<noteq> kcDown kc" "kcEsc kc \<noteq> kcEnd kc"
  shows "(dispatch kc s keycode = K_Esc) = (kcEsc kc \<noteq> 0 \<and> keycode = kcEsc kc)"
proof
  assume "dispatch kc s keycode = K_Esc"
  with dispatch_not_esc [of kc keycode s] show "kcEsc kc \<noteq> 0 \<and> keycode = kcEsc kc"
    by blast
next
  assume "kcEsc kc \<noteq> 0 \<and> keycode = kcEsc kc"
  with assms show "dispatch kc s keycode = K_Esc"
    by (simp add: dispatch_def)
qed

lemma perform_frame:
  "iErr (fst (perform key s ob)) = iErr s"
  "iEndTimeMs (fst (perform key s ob)) = iEndTimeMs s"
  "iRunning (fst (perform key s ob)) = (if key = K_Esc then 0 else iRunning s)"
  by (cases key; simp add: Let_def)+

lemma handle_event_frame:
  assumes "kcEsc kc \<noteq> kcDown kc" "kcEsc kc \<noteq> kcEnd kc"
  shows "iErr (fst (handle_event kc s ev ob)) = iErr s"
    and "iEndTimeMs (fst (handle_event kc s ev ob)) = iEndTimeMs s"
    and "iRunning (fst (handle_event kc s ev ob)) =
          (if kcEsc kc \<noteq> 0 \<and> ev = KeyPress_event (kcEsc kc) then 0 else iRunning s)"
proof -
  show "iErr (fst (handle_event kc s ev ob)) = iErr s"
    by (cases ev) (simp_all add: KeyPress_def perform_frame)
  show "iEndTimeMs (fst (handle_event kc s ev ob)) = iEndTimeMs s"
    by (cases ev) (simp_all add: KeyPress_def perform_frame)
  show "iRunning (fst (handle_event kc s ev ob)) =
          (if kcEsc kc \<noteq> 0 \<and> ev = KeyPress_event (kcEsc kc) then 0 else iRunning s)"
  proof (cases ev)
    case (KeyPress_event keycode)
    then show ?thesis
      using dispatch_esc [OF assms, of s keycode]
      by (auto simp add: KeyPress_def perform_frame)
  qed simp_all
qed

lemma drain_frame:
  assumes "kcEsc kc \<noteq> kcDown kc" "kcEsc kc \<noteq> kcEnd kc"
  shows "iErr (fst (drain kc s evs)) = iErr s
       \<and> iEndTimeMs (fst (drain kc s evs)) = iEndTimeMs s
       \<and> iRunning (fst (drain kc s evs)) =
          (if kcEsc kc \<noteq> 0 \<and> KeyPress_event (kcEsc kc) \<in> fst ` set evs then 0
           else iRunning s)"
proof (induction evs arbitrary: s)
  case Nil
  show ?case by simp
next
  case (Cons e evs)
  obtain ev ob where e: "e = (ev, ob)" by (cases e)
  obtain s1 c1 where h: "handle_event kc s ev ob = (s1, c1)" by (cases "handle_event kc s ev ob")
  obtain s2 c2 where d: "drain kc s1 evs = (s2, c2)" by (cases "drain kc s1 evs")
  have s1: "iErr s1 = iErr s" "iEndTimeMs s1 = iEndTimeMs s"
    "iRunning s1 = (if kcEsc kc \<noteq> 0 \<and> ev = KeyPress_event (kcEsc kc) then 0 else iRunning s)"
    using handle_event_frame [OF assms, of s ev ob] h by simp_all
  have s2: "iErr s2 = iErr s1" "iEndTimeMs s2 = iEndTimeMs s1"
    "iRunning s2 = (if kcEsc kc \<noteq> 0 \<and> KeyPress_event (kcEsc kc) \<in> fst ` set evs then 0
           else iRunning s1)"
    using Cons.IH [of s1] d by simp_all
  have "fst (drain kc s (e # evs)) = s2" by (simp add: e h d)
  with s1 s2 e show ?case by auto
qed

lemma poll_cycle_frame:
  assumes "kcEsc kc \<noteq> kcDown kc" "kcEsc kc \<noteq> kcEnd kc" "running s"
  shows "iEndTimeMs (fst (poll_cycle kc s obs)) = iEndTimeMs s"
    and "running (fst (poll_cycle kc s obs)) = (\<not> exit_observed kc (iEndTimeMs s) obs)"
    and "\<not> escape_pressed kc obs \<and> co_state obs < libvlc_Stopped \<and> co_time obs < 0
           \<longrightarrow> iErr (fst (poll_cycle kc s obs)) = ERROR_FSPLAYER_VLC"
proof -
  obtain s1 c1 where d: "drain kc s (co_events obs) = (s1, c1)"
    by (cases "drain kc s (co_events obs)")
  have s1: "iErr s1 = 0" "iEndTimeMs s1 = iEndTimeMs s"
    "iRunning s1 = (if escape_pressed kc obs then 0 else iRunning s)"
    using drain_frame [OF assms(1,2), of s "co_events obs"] d assms(3)
    by (simp_all add: running_def escape_pressed_def)
  have p: "fst (poll_cycle kc s obs) = check_time (check_state s1 obs) obs"
    by (simp add: poll_cycle_def d Let_def)
  show "iEndTimeMs (fst (poll_cycle kc s obs)) = iEndTimeMs s"
    by (simp add: p s1 check_time_def check_state_def Let_def)
  show "running (fst (poll_cycle kc s obs)) = (\<not> exit_observed kc (iEndTimeMs s) obs)"
    using assms(3)
    by (auto simp add: p s1 check_time_def check_state_def Let_def running_def
        exit_observed_def ERROR_FSPLAYER_VLC_def)
  show "\<not> escape_pressed kc obs \<and> co_state obs < libvlc_Stopped \<and> co_time obs < 0
           \<longrightarrow> iErr (fst (poll_cycle kc s obs)) = ERROR_FSPLAYER_VLC"
    using assms(3)
    by (auto simp add: p s1 check_time_def check_state_def Let_def running_def)
qed

lemma poll_loop_running:
  assumes "kcEsc kc \<noteq> kcDown kc" "kcEsc kc \<noteq> kcEnd kc"
  shows "running s \<Longrightarrow>
     running (fst (poll_loop kc s cycles)) =
       (\<forall>obs \<in> set cycles. \<not> exit_observed kc (iEndTimeMs s) obs)"
proof (induction cycles arbitrary: s)
  case Nil
  then show ?case by simp
next
  case (Cons obs cycles)
  obtain s1 c1 where c: "poll_cycle kc s obs = (s1, c1)" by (cases "poll_cycle kc s obs")
  obtain s2 c2 where l: "poll_loop kc s1 cycles = (s2, c2)" by (cases "poll_loop kc s1 cycles")
  have e: "iEndTimeMs s1 = iEndTimeMs s"
    and r: "running s1 = (\<not> exit_observed kc (iEndTimeMs s) obs)"
    using poll_cycle_frame(1,2) [OF assms Cons.prems, of obs] c by simp_all
  have f: "fst (poll_loop kc s (obs # cycles)) = s2"
    using Cons.prems by (simp add: c l)
  show ?case
  proof (cases "running s1")
    case True
    with Cons.IH [of s1] l e have "running s2 = (\<forall>obs \<in> set cycles. \<not> exit_observed kc (iEndTimeMs s) obs)"
      by simp
    with True r f show ?thesis by simp
  next
    case False
    have "s2 = s1" using l False by (cases cycles) simp_all
    with False r f show ?thesis by simp
  qed
qed

text \<open>
  C5. With the escape key bound to a code of its own, the event loop is still running
  after a run of cycles exactly when none of them observed an exit condition: escape
  pressed, engine state at or beyond \<open>libvlc_Stopped\<close> (so also \<open>libvlc_Ended\<close>,
  whatever key events are pending in that cycle), a negative play time, or a play time
  at or past the end time. The same holds for a single cycle, and a negative play
  time seen in a cycle is recorded as \<open>ERROR_FSPLAYER_VLC\<close>.
\<close>

theorem poll_loop_exit:
  assumes "running s" "kcEsc kc \<noteq> kcDown kc" "kcEsc kc \<noteq> kcEnd kc"
  shows "running (fst (poll_loop kc s cycles)) =
           (\<forall>obs \<in> set cycles. \<not> exit_observed kc (iEndTimeMs s) obs)
       \<and> running (fst (poll_cycle kc s obs)) = (\<not> exit_observed kc (iEndTimeMs s) obs)
       \<and> (\<not> escape_pressed kc obs \<and> co_state obs < libvlc_Stopped \<and> co_time obs < 0
            \<longrightarrow> iErr (fst (poll_cycle kc s obs)) = ERROR_FSPLAYER_VLC)
       \<and> libvlc_Stopped \<le> libvlc_Ended"
proof -
  have 1: "running (fst (poll_loop kc s cycles)) =
           (\<forall>obs \<in> set cycles. \<not> exit_observed kc (iEndTimeMs s) obs)"
    using assms(2,3,1) by (rule poll_loop_running)
  have 2: "running (fst (poll_cycle kc s obs)) = (\<not> exit_observed kc (iEndTimeMs s) obs)"
    using assms(2,3,1) by (rule poll_cycle_frame(2))
  have 3: "\<not> escape_pressed kc obs \<and> co_state obs < libvlc_Stopped \<and> co_time obs < 0
            \<longrightarrow> iErr (fst (poll_cycle kc s obs)) = ERROR_FSPLAYER_VLC"
    using assms(2,3,1) by (rule poll_cycle_frame(3))
  have 4: "libvlc_Stopped \<le> libvlc_Ended"
    by (simp add: libvlc_Stopped_def libvlc_Ended_def)
  from 1 2 3 4 show ?thesis by simp
qed

theorem poll_loop_exit_witness:
  "running (example_session 125000 [])
   \<and> kcEsc example_keycodes \<noteq> kcDown example_keycodes
   \<and> kcEsc example_keycodes \<noteq> kcEnd example_keycodes
   \<and> running (fst (poll_cycle example_keycodes (example_session 125000 [])
                    example_cycle_playing))
   \<and> \<not> running (fst (poll_loop example_keycodes (example_session 125000 [])
                    [example_cycle_playing, example_cycle_ended]))
   \<and> \<not> running (fst (poll_cycle example_keycodes (example_session 125000 [])
            \<lparr>co_events = [], co_state = libvlc_Playing, co_time = - 1, co_focus = 20\<rparr>))
   \<and> iErr (fst (poll_cycle example_keycodes (example_session 125000 [])
            \<lparr>co_events = [], co_state = libvlc_Playing, co_time = - 1, co_focus = 20\<rparr>))
       = ERROR_FSPLAYER_VLC"
proof -
  have h: "running (example_session 125000 [])"
    "kcEsc example_keycodes \<noteq> kcDown example_keycodes"
    "kcEsc example_keycodes \<noteq> kcEnd example_keycodes"
    by (simp_all add: running_def example_session_def example_keycodes_def)
  have e: "\<not> exit_observed example_keycodes 125000 example_cycle_playing"
    "exit_observed example_keycodes 125000 example_cycle_ended"
    "exit_observed example_keycodes 125000
       \<lparr>co_events = [], co_state = libvlc_Playing, co_time = - 1, co_focus = 20\<rparr>"
    "\<not> escape_pressed example_keycodes
       \<lparr>co_events = [], co_state = libvlc_Playing, co_time = - 1, co_focus = 20\<rparr>"
    by (simp_all add: exit_observed_def escape_pressed_def example_cycle_playing_def
        example_cycle_ended_def example_keycodes_def libvlc_Playing_def libvlc_Stopped_def
        libvlc_Ended_def)
  have n: "iEndTimeMs (example_session 125000 []) = 125000"
    by (simp add: example_session_def)
  from poll_loop_exit [OF h, where obs = example_cycle_playing
      and cycles = "[example_cycle_playing, example_cycle_ended]"]
    poll_loop_exit [OF h, where cycles = "[]"
      and obs = "\<lparr>co_events = [], co_state = libvlc_Playing, co_time = - 1, co_focus = 20\<rparr>"]
    h e
  show ?thesis
    by (simp add: n libvlc_Playing_def libvlc_Stopped_def)
qed

section \<open>Properties: the window tree walker\<close>

lemma levels_child: "k \<in> set ks \<Longrightarrow> levels k \<le> foldr max (map levels ks) 0"
  by (induction ks) auto

lemma matching_subset: "set (matching v t) \<subseteq> set (nodes t)"
  by (induction t) auto

lemma distinct_child:
  "distinct (concat (map nodes ks)) \<Longrightarrow> k \<in> set ks \<Longrightarrow> distinct (nodes k)"
  by (induction ks) auto

lemma children_no_match:
  assumes bk: "\<And>b. Back b \<in> set ks \<Longrightarrow> b = w \<or> b = r \<or> b = p"
    and nd: "\<And>c nm cs s. WNode c nm cs \<in> set ks \<Longrightarrow>
        c \<noteq> w \<and> c \<noteq> r \<and> c \<noteq> p
        \<and> (\<exists>s'. search c s = Some (False, s') \<and> pReturn s' = pReturn s
               \<and> pMaster s' = pMaster s
               \<and> queried s' = queried s @ nodes (WNode c nm cs))"
  shows "\<exists>st'. FindX11Window_children search w r p (map entry_id ks) st = Some (False, st')
           \<and> pReturn st' = pReturn st
           \<and> (w \<noteq> r \<longrightarrow> pMaster st' = pMaster st)
           \<and> queried st' = queried st @ concat (map nodes ks)"
  using bk nd
proof (induction ks arbitrary: st)
  case Nil
  show ?case by simp
next
  case (Cons k ks)
  have rest: "\<exists>st'. FindX11Window_children search w r p (map entry_id ks) s = Some (False, st')
           \<and> pReturn st' = pReturn s
           \<and> (w \<noteq> r \<longrightarrow> pMaster st' = pMaster s)
           \<and> queried st' = queried s @ concat (map nodes ks)" for s
  proof (rule Cons.IH)
    fix b assume "Back b \<in> set ks"
    then show "b = w \<or> b = r \<or> b = p" using Cons.prems(1) [of b] by simp
  next
    fix c nm cs s assume "WNode c nm cs \<in> set ks"
    then show "c \<noteq> w \<and> c \<noteq> r \<and> c \<noteq> p
        \<and> (\<exists>s'. search c s = Some (False, s') \<and> pReturn s' = pReturn s
               \<and> pMaster s' = pMaster s
               \<and> queried s' = queried s @ nodes (WNode c nm cs))"
      using Cons.prems(2) [of c nm cs s] by simp
  qed
  show ?case
  proof (cases k)
    case (Back b)
    with Cons.prems(1) [of b] have "b = w \<or> b = r \<or> b = p" by simp
    with Back rest [of st] show ?thesis by auto
  next
    case (WNode c nm cs)
    let ?s = "if w = r then st\<lparr>pMaster := c\<rparr> else st"
    from WNode Cons.prems(2) [of c nm cs ?s]
    obtain s' where g: "c \<noteq> w" "c \<noteq> r" "c \<noteq> p"
      and s': "search c ?s = Some (False, s')" "pReturn s' = pReturn ?s"
        "pMaster s' = pMaster ?s" "queried s' = queried ?s @ nodes k"
      by auto
    from rest [of s'] obtain st' where
      r: "FindX11Window_children search w r p (map entry_id ks) s' = Some (False, st')"
        "pReturn st' = pReturn s'" "w \<noteq> r \<longrightarrow> pMaster st' = pMaster s'"
        "queried st' = queried s' @ concat (map nodes ks)"
      by blast
    have "FindX11Window_children search w r p (map entry_id (k # ks)) st = Some (False, st')"
      using WNode g s'(1) r(1) by simp
    moreover have "pReturn st' = pReturn st" using r(2) s'(2) by simp
    moreover have "w \<noteq> r \<longrightarrow> pMaster st' = pMaster st" using r(3) s'(3) by simp
    moreover have "queried st' = queried st @ concat (map nodes (k # ks))"
      using r(4) s'(4) by simp
    ultimately show ?thesis by blast
  qed
qed

lemma children_match:
  assumes mt: "concat (map (matching v) ks) = m # ms"
    and bk: "\<And>b. Back b \<in> set ks \<Longrightarrow> b = w \<or> b = r \<or> b = p"
    and nd: "\<And>c nm cs s. WNode c nm cs \<in> set ks \<Longrightarrow>
        c \<noteq> w \<and> c \<noteq> r \<and> c \<noteq> p
        \<and> (matching v (WNode c nm cs) = [] \<longrightarrow>
             (\<exists>s'. search c s = Some (False, s') \<and> pReturn s' = pReturn s
               \<and> pMaster s' = pMaster s
               \<and> queried s' = queried s @ nodes (WNode c nm cs)))
        \<and> (matching v (WNode c nm cs) \<noteq> [] \<longrightarrow>
             (\<exists>s'. search c s = Some (True, s')
               \<and> pReturn s' = hd (matching v (WNode c nm cs))
               \<and> pMaster s' = pMaster s))"
  shows "\<exists>st' k. k \<in> set ks \<and> m \<in> set (nodes k)
           \<and> FindX11Window_children search w r p (map entry_id ks) st = Some (True, st')
           \<and> pReturn st' = m
           \<and> pMaster st' = (if w = r then entry_id k else pMaster st)"
  using mt bk nd
proof (induction ks arbitrary: st)
  case Nil
  then show ?case by simp
next
  case (Cons k ks)
  have rest: "\<exists>st' k. k \<in> set ks \<and> m \<in> set (nodes k)
           \<and> FindX11Window_children search w r p (map entry_id ks) s = Some (True, st')
           \<and> pReturn st' = m
           \<and> pMaster st' = (if w = r then entry_id k else pMaster s)"
    if "concat (map (matching v) ks) = m # ms" for s
  proof (rule Cons.IH [OF that])
    fix b assume "Back b \<in> set ks"
    then show "b = w \<or> b = r \<or> b = p" using Cons.prems(2) [of b] by simp
  next
    fix c nm cs s assume "WNode c nm cs \<in> set ks"
    then show "c \<noteq> w \<and> c \<noteq> r \<and> c \<noteq> p
        \<and> (matching v (WNode c nm cs) = [] \<longrightarrow>
             (\<exists>s'. search c s = Some (False, s') \<and> pReturn s' = pReturn s
               \<and> pMaster s' = pMaster s
               \<and> queried s' = queried s @ nodes (WNode c nm cs)))
        \<and> (matching v (WNode c nm cs) \<noteq> [] \<longrightarrow>
             (\<exists>s'. search c s = Some (True, s')
               \<and> pReturn s' = hd (matching v (WNode c nm cs))
               \<and> pMaster s' = pMaster s))"
      using Cons.prems(3) [of c nm cs s] by simp
  qed
  show ?case
  proof (cases k)
    case (Back b)
    with Cons.prems(2) [of b] have g: "b = w \<or> b = r \<or> b = p" by simp
    from Back Cons.prems(1) have "concat (map (matching v) ks) = m # ms" by simp
    from rest [OF this, of st] obtain st' k' where
      "k' \<in> set ks" "m \<in> set (nodes k')"
      "FindX11Window_children search w r p (map entry_id ks) st = Some (True, st')"
      "pReturn st' = m" "pMaster st' = (if w = r then entry_id k' else pMaster st)"
      by blast
    with Back g show ?thesis by auto
  next
    case (WNode c nm cs)
    let ?s = "if w = r then st\<lparr>pMaster := c\<rparr> else st"
    from WNode Cons.prems(3) [of c nm cs ?s]
    have g: "c \<noteq> w" "c \<noteq> r" "c \<noteq> p"
      and n0: "matching v k = [] \<longrightarrow>
             (\<exists>s'. search c ?s = Some (False, s') \<and> pReturn s' = pReturn ?s
               \<and> pMaster s' = pMaster ?s \<and> queried s' = queried ?s @ nodes k)"
      and n1: "matching v k \<noteq> [] \<longrightarrow>
             (\<exists>s'. search c ?s = Some (True, s') \<and> pReturn s' = hd (matching v k)
               \<and> pMaster s' = pMaster ?s)"
      by auto
    show ?thesis
    proof (cases "matching v k = []")
      case True
      with n0 obtain s' where s': "search c ?s = Some (False, s')"
        "pMaster s' = pMaster ?s" by blast
      from True Cons.prems(1) have "concat (map (matching v) ks) = m # ms" by simp
      from rest [OF this, of s'] obtain st' k' where
        r: "k' \<in> set ks" "m \<in> set (nodes k')"
        "FindX11Window_children search w r p (map entry_id ks) s' = Some (True, st')"
        "pReturn st' = m" "pMaster st' = (if w = r then entry_id k' else pMaster s')"
        by blast
      have "FindX11Window_children search w r p (map entry_id (k # ks)) st = Some (True, st')"
        using WNode g s'(1) r(3) by simp
      moreover have "pMaster st' = (if w = r then entry_id k' else pMaster st)"
        using r(5) s'(2) by simp
      ultimately show ?thesis using r(1,2,4) by auto
    next
      case False
      with n1 obtain s' where s': "search c ?s = Some (True, s')"
        "pReturn s' = hd (matching v k)" "pMaster s' = pMaster ?s" by blast
      from False Cons.prems(1) have h: "hd (matching v k) = m"
        by (cases "matching v k") simp_all
      with False have "m \<in> set (matching v k)" by (cases "matching v k") auto
      with matching_subset [of v k] have mk: "m \<in> set (nodes k)" by blast
      have "FindX11Window_children search w r p (map entry_id (k # ks)) st = Some (True, s')"
        using WNode g s'(1) by simp
      moreover have "pMaster s' = (if w = r then entry_id k else pMaster st)"
        using s'(3) WNode by simp
      ultimately show ?thesis using mk s'(2) h by auto
    qed
  qed
qed


lemma nodes_child_subset:
  "k \<in> set ks \<Longrightarrow> set (nodes k) \<subseteq> set (concat (map nodes ks))"
  by auto

lemma only_child_with:
  "distinct (concat (map nodes ks)) \<Longrightarrow> k \<in> set ks \<Longrightarrow> m \<in> set (nodes k) \<Longrightarrow>
     filter (\<lambda>k. m \<in> set (nodes k)) ks = [k]"
proof (induction ks)
  case Nil
  then show ?case by simp
next
  case (Cons a ks)
  from Cons.prems(1) have d: "distinct (concat (map nodes ks))"
    and i: "set (nodes a) \<inter> set (concat (map nodes ks)) = {}" by simp_all
  show ?case
  proof (cases "m \<in> set (nodes a)")
    case True
    with i have n: "\<forall>k' \<in> set ks. m \<notin> set (nodes k')" by auto
    with Cons.prems(2,3) have "k = a" by auto
    moreover from n have "filter (\<lambda>k. m \<in> set (nodes k)) ks = []" by (simp add: filter_empty_conv)
    ultimately show ?thesis using True by simp
  next
    case False
    with Cons.prems(2,3) have "k \<in> set ks" by auto
    with Cons.IH [OF d _ Cons.prems(3)] False show ?thesis by simp
  qed
qed

lemma subtree_search:
  assumes "hosts X aName aType r gp p t" "r \<notin> set (nodes t)" "p \<notin> set (nodes t)"
    "distinct (nodes t)" "levels t \<le> d" "t = WNode w nm ks"
  shows "(matching v t = [] \<longrightarrow>
           (\<exists>s'. FindX11Window d X w aName aType v st = Some (False, s')
              \<and> pReturn s' = pReturn st \<and> pMaster s' = pMaster st
              \<and> queried s' = queried st @ nodes t))
       \<and> (matching v t \<noteq> [] \<longrightarrow>
           (\<exists>s'. FindX11Window d X w aName aType v st = Some (True, s')
              \<and> pReturn s' = hd (matching v t) \<and> pMaster s' = pMaster st))"
  using assms
proof (induction t arbitrary: gp p d st w nm ks)
  case (Back b)
  then show ?case by simp
next
  case (WNode w0 nm0 ks0)
  from WNode.prems(6) have eq: "w0 = w" "nm0 = nm" "ks0 = ks" by simp_all
  note prems = WNode.prems [unfolded eq]
  note IH = WNode.IH [unfolded eq]
  from prems(1) have pr: "XGetWindowProperty X w aName aType = nm"
    and tree: "XQueryTree X w = Some (r, p, map entry_id ks)"
    and kids: "\<And>k. k \<in> set ks \<Longrightarrow> hosts X aName aType r p w k"
    by simp_all
  from prems(5) obtain d' where d: "d = Suc d'" and lv: "foldr max (map levels ks) 0 \<le> d'"
    by (cases d) simp_all
  from prems(2) have wr: "w \<noteq> r" and rk: "r \<notin> set (concat (map nodes ks))" by auto
  from prems(3) have pk: "p \<notin> set (concat (map nodes ks))" by auto
  from prems(4) have wk: "w \<notin> set (concat (map nodes ks))"
    and dk: "distinct (concat (map nodes ks))" by simp_all
  let ?search = "\<lambda>c s. FindX11Window d' X c aName aType v s"
  let ?st1 = "st\<lparr>queried := queried st @ [w]\<rparr>"
  have bk: "b = w \<or> b = r \<or> b = p" if "Back b \<in> set ks" for b
    using kids [OF that] by simp
  have nd: "c \<noteq> w \<and> c \<noteq> r \<and> c \<noteq> p
        \<and> (matching v (WNode c n cs) = [] \<longrightarrow>
             (\<exists>s'. ?search c s = Some (False, s') \<and> pReturn s' = pReturn s
               \<and> pMaster s' = pMaster s
               \<and> queried s' = queried s @ nodes (WNode c n cs)))
        \<and> (matching v (WNode c n cs) \<noteq> [] \<longrightarrow>
             (\<exists>s'. ?search c s = Some (True, s')
               \<and> pReturn s' = hd (matching v (WNode c n cs))
               \<and> pMaster s' = pMaster s))"
    if k: "WNode c n cs \<in> set ks" for c n cs s
  proof -
    from k have sub: "set (nodes (WNode c n cs)) \<subseteq> set (concat (map nodes ks))"
      by (rule nodes_child_subset)
    then have c: "c \<in> set (concat (map nodes ks))" by simp
    with wk rk pk have g: "c \<noteq> w \<and> c \<noteq> r \<and> c \<noteq> p" by auto
    have "levels (WNode c n cs) \<le> d'" using levels_child [OF k] lv by simp
    from IH [OF k kids [OF k] _ _ distinct_child [OF dk k] this refl, of s]
      sub rk wk g show ?thesis by blast
  qed
  have "(matching v (WNode w nm ks) = [] \<longrightarrow>
           (\<exists>s'. FindX11Window d X w aName aType v st = Some (False, s')
              \<and> pReturn s' = pReturn st \<and> pMaster s' = pMaster st
              \<and> queried s' = queried st @ nodes (WNode w nm ks)))
       \<and> (matching v (WNode w nm ks) \<noteq> [] \<longrightarrow>
           (\<exists>s'. FindX11Window d X w aName aType v st = Some (True, s')
              \<and> pReturn s' = hd (matching v (WNode w nm ks)) \<and> pMaster s' = pMaster st))"
  proof (cases "nm = Some v")
    case True
    then show ?thesis by (simp add: d pr Let_def)
  next
    case False
    then have run: "FindX11Window d X w aName aType v st =
        FindX11Window_children ?search w r p (map entry_id ks) ?st1"
      by (cases nm) (simp_all add: d pr tree Let_def)
    from False have mt: "matching v (WNode w nm ks) = concat (map (matching v) ks)" by simp
    show ?thesis
    proof (cases "concat (map (matching v) ks)")
      case Nil
      have "\<exists>st'. FindX11Window_children ?search w r p (map entry_id ks) ?st1 = Some (False, st')
           \<and> pReturn st' = pReturn ?st1
           \<and> (w \<noteq> r \<longrightarrow> pMaster st' = pMaster ?st1)
           \<and> queried st' = queried ?st1 @ concat (map nodes ks)"
      proof (rule children_no_match)
        fix b assume "Back b \<in> set ks"
        then show "b = w \<or> b = r \<or> b = p" by (rule bk)
      next
        fix c n cs s assume k: "WNode c n cs \<in> set ks"
        with Nil have "matching v (WNode c n cs) = []" by auto
        with nd [OF k, of s] show "c \<noteq> w \<and> c \<noteq> r \<and> c \<noteq> p
          \<and> (\<exists>s'. ?search c s = Some (False, s') \<and> pReturn s' = pReturn s
               \<and> pMaster s' = pMaster s
               \<and> queried s' = queried s @ nodes (WNode c n cs))" by blast
      qed
      with run mt Nil wr show ?thesis by auto
    next
      case (Cons m ms)
      have "\<exists>st' k. k \<in> set ks \<and> m \<in> set (nodes k)
           \<and> FindX11Window_children ?search w r p (map entry_id ks) ?st1 = Some (True, st')
           \<and> pReturn st' = m
           \<and> pMaster st' = (if w = r then entry_id k else pMaster ?st1)"
        using Cons bk nd by (rule children_match)
      with run mt Cons wr show ?thesis by auto
    qed
  qed
  then show ?case by (simp only: eq)
qed


lemma root_search:
  assumes h: "hierarchy X aName aType (WNode r nm ks)"
    and lv: "levels (WNode r nm ks) \<le> d"
  shows "(matching v (WNode r nm ks) = [] \<longrightarrow>
           (\<exists>s'. FindX11Window d X r aName aType v st = Some (False, s')
              \<and> pReturn s' = pReturn st
              \<and> queried s' = queried st @ nodes (WNode r nm ks)))
       \<and> (matching v (WNode r nm ks) \<noteq> [] \<longrightarrow>
           (\<exists>s'. FindX11Window d X r aName aType v st = Some (True, s')
              \<and> pReturn s' = hd (matching v (WNode r nm ks))
              \<and> (hd (matching v (WNode r nm ks)) = r \<longrightarrow> pMaster s' = pMaster st)
              \<and> (hd (matching v (WNode r nm ks)) \<noteq> r \<longrightarrow>
                   master_of (WNode r nm ks) (hd (matching v (WNode r nm ks))) = [pMaster s'])))"
proof -
  from h have pr: "XGetWindowProperty X r aName aType = nm"
    and tree: "XQueryTree X r = Some (r, 0, map entry_id ks)"
    and kids: "\<And>k. k \<in> set ks \<Longrightarrow> hosts X aName aType r 0 r k"
    and rk: "r \<notin> set (concat (map nodes ks))"
    and dk: "distinct (concat (map nodes ks))"
    and zr: "0 \<noteq> r" and zk: "0 \<notin> set (concat (map nodes ks))"
    by simp_all
  from lv obtain d' where d: "d = Suc d'" and lv': "foldr max (map levels ks) 0 \<le> d'"
    by (cases d) simp_all
  let ?search = "\<lambda>c s. FindX11Window d' X c aName aType v s"
  let ?st1 = "st\<lparr>queried := queried st @ [r]\<rparr>"
  have bk: "b = r \<or> b = r \<or> b = 0" if "Back b \<in> set ks" for b
    using kids [OF that] by auto
  have nd: "c \<noteq> r \<and> c \<noteq> r \<and> c \<noteq> 0
        \<and> (matching v (WNode c n cs) = [] \<longrightarrow>
             (\<exists>s'. ?search c s = Some (False, s') \<and> pReturn s' = pReturn s
               \<and> pMaster s' = pMaster s
               \<and> queried s' = queried s @ nodes (WNode c n cs)))
        \<and> (matching v (WNode c n cs) \<noteq> [] \<longrightarrow>
             (\<exists>s'. ?search c s = Some (True, s')
               \<and> pReturn s' = hd (matching v (WNode c n cs))
               \<and> pMaster s' = pMaster s))"
    if k: "WNode c n cs \<in> set ks" for c n cs s
  proof -
    from k have sub: "set (nodes (WNode c n cs)) \<subseteq> set (concat (map nodes ks))"
      by (rule nodes_child_subset)
    then have c: "c \<in> set (concat (map nodes ks))" by simp
    from c rk have "c \<noteq> r" by blast
    moreover have "c \<noteq> 0"
    proof
      assume "c = 0"
      with c zk show False by simp
    qed
    ultimately have g: "c \<noteq> r \<and> c \<noteq> 0" by blast
    have "levels (WNode c n cs) \<le> d'" using levels_child [OF k] lv' by simp
    from subtree_search [OF kids [OF k] _ _ distinct_child [OF dk k] this refl, of v s]
      sub rk g show ?thesis by blast
  qed
  show ?thesis
  proof (cases "nm = Some v")
    case True
    then show ?thesis by (simp add: d pr Let_def)
  next
    case False
    then have run: "FindX11Window d X r aName aType v st =
        FindX11Window_children ?search r r 0 (map entry_id ks) ?st1"
      by (cases nm) (simp_all add: d pr tree Let_def)
    from False have mt: "matching v (WNode r nm ks) = concat (map (matching v) ks)" by simp
    show ?thesis
    proof (cases "concat (map (matching v) ks)")
      case Nil
      have "\<exists>st'. FindX11Window_children ?search r r 0 (map entry_id ks) ?st1 = Some (False, st')
           \<and> pReturn st' = pReturn ?st1
           \<and> (r \<noteq> r \<longrightarrow> pMaster st' = pMaster ?st1)
           \<and> queried st' = queried ?st1 @ concat (map nodes ks)"
      proof (rule children_no_match)
        fix b assume "Back b \<in> set ks"
        then show "b = r \<or> b = r \<or> b = 0" by (rule bk)
      next
        fix c n cs s assume k: "WNode c n cs \<in> set ks"
        with Nil have "matching v (WNode c n cs) = []" by auto
        with nd [OF k, of s] show "c \<noteq> r \<and> c \<noteq> r \<and> c \<noteq> 0
          \<and> (\<exists>s'. ?search c s = Some (False, s') \<and> pReturn s' = pReturn s
               \<and> pMaster s' = pMaster s
               \<and> queried s' = queried s @ nodes (WNode c n cs))" by blast
      qed
      with run mt Nil show ?thesis by auto
    next
      case (Cons m ms)
      have "\<exists>st' k. k \<in> set ks \<and> m \<in> set (nodes k)
           \<and> FindX11Window_children ?search r r 0 (map entry_id ks) ?st1 = Some (True, st')
           \<and> pReturn st' = m
           \<and> pMaster st' = (if r = r then entry_id k else pMaster ?st1)"
        using Cons bk nd by (rule children_match)
      then obtain st' k where k: "k \<in> set ks" "m \<in> set (nodes k)"
        and f: "FindX11Window_children ?search r r 0 (map entry_id ks) ?st1 = Some (True, st')"
          "pReturn st' = m" "pMaster st' = entry_id k"
        by auto
      from k nodes_child_subset [OF k(1)] rk have mr: "m \<noteq> r" by auto
      have "master_of (WNode r nm ks) m = [entry_id k]"
        using only_child_with [OF dk k] by (simp add: master_of_def)
      with run mt Cons f mr show ?thesis by auto
    qed
  qed
qed

lemma children_not_found_pReturn:
  assumes "\<And>c s s'. search c s = Some (False, s') \<Longrightarrow> pReturn s' = pReturn s"
  shows "FindX11Window_children search w r p cs st = Some (False, st')
           \<Longrightarrow> pReturn st' = pReturn st"
proof (induction cs arbitrary: st)
  case Nil
  then show ?case by simp
next
  case (Cons c cs)
  show ?case
  proof (cases "c \<noteq> w \<and> c \<noteq> r \<and> c \<noteq> p")
    case False
    with Cons.prems have "FindX11Window_children search w r p cs st = Some (False, st')"
      by auto
    then show ?thesis by (rule Cons.IH)
  next
    case True
    let ?s = "if w = r then st\<lparr>pMaster := c\<rparr> else st"
    from True Cons.prems obtain s1 where
      s1: "search c ?s = Some (False, s1)"
      and r: "FindX11Window_children search w r p cs s1 = Some (False, st')"
      by (auto split: option.splits if_splits)
    from assms [OF s1] have "pReturn s1 = pReturn st" by simp
    with Cons.IH [OF r] show ?thesis by simp
  qed
qed

lemma FindX11Window_not_found_pReturn:
  "FindX11Window d X w aName aType v st = Some (False, st') \<Longrightarrow> pReturn st' = pReturn st"
proof (induction d arbitrary: w st st')
  case 0
  then show ?case by simp
next
  case (Suc d)
  let ?st1 = "st\<lparr>queried := queried st @ [w]\<rparr>"
  show ?case
  proof (cases "XQueryTree X w")
    case None
    with Suc.prems show ?thesis by (auto simp: Let_def split: if_splits)
  next
    case (Some q)
    obtain r p cs where q: "q = (r, p, cs)" by (cases q)
    from Suc.prems Some q have
      "FindX11Window_children (\<lambda>c s. FindX11Window d X c aName aType v s) w r p cs ?st1
         = Some (False, st')"
      by (auto simp: Let_def split: if_splits)
    then have "pReturn st' = pReturn ?st1"
      by (rule children_not_found_pReturn [rotated]) (rule Suc.IH)
    then show ?thesis by simp
  qed
qed

text \<open>
  C2. Let the server show a finite hierarchy in which exactly one window \<open>m\<close> has
  the searched name, and let the recursion be allowed as deep as the hierarchy. Then
  the search from the root returns found with \<^verbatim>\<open>*pReturn\<close> \<open>= m\<close>; when \<open>m\<close> is not
  the root itself, \<^verbatim>\<open>*pMaster\<close> is the one child of the root whose subtree holds \<open>m\<close>.
  The hierarchy is arbitrary, so this holds for every order in which the children of
  each window are enumerated; links back to the window itself, the root or the
  parent may be present. When the root itself matches, \<^verbatim>\<open>*pMaster\<close> is left as it was.
\<close>

theorem FindX11Window_unique_match:
  assumes "hierarchy X aName aType t" "matching v t = [m]" "levels t \<le> depth"
  shows "\<exists>st'. FindX11Window depth X (entry_id t) aName aType v st = Some (True, st')
           \<and> pReturn st' = m
           \<and> (m \<noteq> entry_id t \<longrightarrow> master_of t m = [pMaster st'])
           \<and> (m = entry_id t \<longrightarrow> pMaster st' = pMaster st)"
proof (cases t)
  case (Back b)
  with assms(1) show ?thesis by simp
next
  case (WNode r nm ks)
  from assms(2) have ne: "matching v t \<noteq> []" and hd: "hd (matching v t) = m" by simp_all
  from root_search [OF assms(1) [unfolded WNode] assms(3) [unfolded WNode], of v st]
    ne hd WNode
  show ?thesis by auto
qed

theorem FindX11Window_unique_match_witness:
  "hierarchy example_xserver 39 31 example_tree
   \<and> matching ''VLC media player'' example_tree = [40]
   \<and> levels example_tree \<le> 3
   \<and> master_of example_tree 40 = [30]
   \<and> (\<exists>st'. FindX11Window 3 example_xserver 1 39 31 ''VLC media player''
               \<lparr>pReturn = 0, pMaster = 0, queried = []\<rparr> = Some (True, st')
            \<and> pReturn st' = 40 \<and> pMaster st' = 30)"
proof -
  have h: "hierarchy example_xserver 39 31 example_tree"
    by (simp add: example_xserver_def example_tree_def XGetWindowProperty_def XQueryTree_def)
  have m: "matching ''VLC media player'' example_tree = [40]"
    by (simp add: example_tree_def)
  have l: "levels example_tree \<le> 3"
    by (simp add: example_tree_def)
  have e: "entry_id example_tree = 1" "master_of example_tree 40 = [30]"
    by (simp_all add: example_tree_def master_of_def)
  from FindX11Window_unique_match [OF h m l, of "\<lparr>pReturn = 0, pMaster = 0, queried = []\<rparr>"]
    h m l e
  show ?thesis by auto
qed

text \<open>
  C8. Let the server show a finite hierarchy in which no window has the searched
  name, where a list of children may also hold links back to the window itself, to
  the root or to the parent of the window. Then the search from the root returns
  not found, leaves \<^verbatim>\<open>*pReturn\<close> as it was, and reads the property of each window of
  the hierarchy exactly once: the windows read are those of the hierarchy, parents
  before children, and none occurs twice.
\<close>

theorem FindX11Window_no_match:
  assumes "hierarchy X aName aType t" "matching v t = []" "levels t \<le> depth"
  shows "\<exists>st'. FindX11Window depth X (entry_id t) aName aType v st = Some (False, st')
           \<and> pReturn st' = pReturn st
           \<and> queried st' = queried st @ nodes t
           \<and> distinct (nodes t)"
proof (cases t)
  case (Back b)
  with assms(1) show ?thesis by simp
next
  case (WNode r nm ks)
  from assms(1) WNode have "distinct (nodes t)" by simp
  with root_search [OF assms(1) [unfolded WNode] assms(3) [unfolded WNode], of v st]
    assms(2) WNode
  show ?thesis by auto
qed

theorem FindX11Window_no_match_witness:
  "hierarchy example_xserver 39 31 example_tree
   \<and> matching ''xload'' example_tree = []
   \<and> levels example_tree \<le> 3
   \<and> (\<exists>st'. FindX11Window 3 example_xserver 1 39 31 ''xload''
               \<lparr>pReturn = 0, pMaster = 0, queried = []\<rparr> = Some (False, st')
            \<and> pReturn st' = 0 \<and> queried st' = [1, 20, 30, 40])"
proof -
  have h: "hierarchy example_xserver 39 31 example_tree"
    by (simp add: example_xserver_def example_tree_def XGetWindowProperty_def XQueryTree_def)
  have m: "matching ''xload'' example_tree = []"
    by (simp add: example_tree_def)
  have l: "levels example_tree \<le> 3"
    by (simp add: example_tree_def)
  have e: "entry_id example_tree = 1" "nodes example_tree = [1, 20, 30, 40]"
    by (simp_all add: example_tree_def)
  from FindX11Window_no_match [OF h m l, of "\<lparr>pReturn = 0, pMaster = 0, queried = []\<rparr>"]
    h m l e
  show ?thesis by auto
qed

text \<open>
  C9. When the search for the panel returns not found, \<^verbatim>\<open>TaskbarFindAndUnmap\<close>
  records the handle 0 and leaves the server as it was, and \<^verbatim>\<open>TaskbarRaise\<close> with the
  handle 0 leaves the server as it was; doing either again changes nothing either.
\<close>

theorem Taskbar_absent_noop:
  assumes "FindX11Window depth X wRoot (XInternAtom X ''WM_NAME'') (XInternAtom X ''STRING'')
             ''xload'' \<lparr>pReturn = 0, pMaster = 0, queried = []\<rparr> = Some (False, st)"
  shows "TaskbarFindAndUnmap depth X wRoot = Some (X, 0)
       \<and> TaskbarRaise X 0 = X
       \<and> Option.bind (TaskbarFindAndUnmap depth X wRoot)
            (\<lambda>(X', wTaskbar). TaskbarFindAndUnmap depth (TaskbarRaise X' wTaskbar) wRoot)
          = Some (X, 0)
       \<and> TaskbarRaise (TaskbarRaise X 0) 0 = X"
proof -
  from assms have "pReturn st = 0"
    using FindX11Window_not_found_pReturn [OF assms] by simp
  with assms have 1: "TaskbarFindAndUnmap depth X wRoot = Some (X, 0)"
    by (simp add: TaskbarFindAndUnmap_def Let_def)
  have 2: "TaskbarRaise X 0 = X" by (simp add: TaskbarRaise_def)
  from 1 2 show ?thesis by simp
qed

theorem Taskbar_absent_noop_witness:
  "FindX11Window 3 example_xserver 1 (XInternAtom example_xserver ''WM_NAME'')
       (XInternAtom example_xserver ''STRING'') ''xload''
       \<lparr>pReturn = 0, pMaster = 0, queried = []\<rparr>
     = Some (False, \<lparr>pReturn = 0, pMaster = 30, queried = [1, 20, 30, 40]\<rparr>)
   \<and> TaskbarFindAndUnmap 3 example_xserver 1 = Some (example_xserver, 0)
   \<and> TaskbarRaise example_xserver 0 = example_xserver"
proof -
  have a: "XInternAtom example_xserver ''WM_NAME'' = 39"
    "XInternAtom example_xserver ''STRING'' = 31"
    by (simp_all add: XInternAtom_def example_xserver_def)
  have f: "FindX11Window 3 example_xserver 1 39 31 ''xload''
       \<lparr>pReturn = 0, pMaster = 0, queried = []\<rparr>
     = Some (False, \<lparr>pReturn = 0, pMaster = 30, queried = [1, 20, 30, 40]\<rparr>)"
    by (simp add: eval_nat_numeral example_xserver_def XGetWindowProperty_def
        XQueryTree_def Let_def)
  from Taskbar_absent_noop [of 3 example_xserver 1, unfolded a, OF f] f
  show ?thesis by (simp add: a)
qed

section \<open>Properties: placement, fullscreen, teardown\<close>

text \<open>
  C10. For every keypad position and every window, \<^verbatim>\<open>PositionWindow\<close> leaves the
  hierarchy, the properties, the stacking order, the hints, the messages sent and
  every other window as they were; of the window itself only the position can
  differ. When the window does not exist, or is at least as wide or as high as the
  screen, the server is left entirely as it was.
\<close>

theorem PositionWindow_frame:
  assumes "X' = PositionWindow X w iKeypadPos scrx scry"
  shows "xs_tree X' = xs_tree X \<and> xs_property X' = xs_property X
       \<and> xs_stack X' = xs_stack X \<and> xs_motif_hints X' = xs_motif_hints X
       \<and> xs_sent X' = xs_sent X \<and> xs_atom X' = xs_atom X
       \<and> (\<forall>v. v \<noteq> w \<longrightarrow> xs_attr X' v = xs_attr X v)
       \<and> (xs_attr X w = None \<longrightarrow> X' = X)
       \<and> (\<forall>a. xs_attr X w = Some a \<longrightarrow>
             (\<exists>x y. xs_attr X' w = Some (a\<lparr>wa_x := x, wa_y := y\<rparr>))
             \<and> (scrx \<le> wa_width a \<or> scry \<le> wa_height a \<longrightarrow> X' = X))"
proof (cases "xs_attr X w")
  case None
  with assms show ?thesis by (simp add: PositionWindow_def XGetGeometry_def)
next
  case (Some a)
  show ?thesis
  proof (cases "wa_width a < scrx \<and> wa_height a < scry")
    case False
    with Some assms have "X' = X" by (simp add: PositionWindow_def XGetGeometry_def Let_def)
    moreover have "a = a\<lparr>wa_x := wa_x a, wa_y := wa_y a\<rparr>" by simp
    ultimately show ?thesis using Some by (metis option.inject)
  next
    case True
    with Some assms obtain x y where "X' = XMoveWindow X w x y"
      by (simp add: PositionWindow_def XGetGeometry_def Let_def)
    with Some True show ?thesis by (auto simp: XMoveWindow_def)
  qed
qed

theorem PositionWindow_frame_witness:
  "xs_attr (PositionWindow example_xserver 30 9 1920 1080) 30 = Some (example_attr 1274 0 646 504)
   \<and> xs_stack (PositionWindow example_xserver 30 9 1920 1080) = [1, 20, 30, 40]
   \<and> xs_attr (PositionWindow example_xserver 30 9 1920 1080) 40 = Some (example_attr 3 21 640 480)
   \<and> xs_attr example_xserver 20 = Some (example_attr 0 0 1920 1080)
   \<and> PositionWindow example_xserver 20 9 1920 1080 = example_xserver"
proof -
  have a: "xs_attr example_xserver 20 = Some (example_attr 0 0 1920 1080)"
    "xs_attr example_xserver 30 = Some (example_attr 3 4 646 504)"
    "xs_attr example_xserver 40 = Some (example_attr 3 21 640 480)"
    "xs_stack example_xserver = [1, 20, 30, 40]"
    by (simp_all add: example_xserver_def)
  have m: "xs_attr (PositionWindow example_xserver 30 9 1920 1080) 30
      = Some (example_attr 1274 0 646 504)"
    by (simp add: PositionWindow_def XGetGeometry_def XMoveWindow_def a Let_def
        example_attr_def)
  from PositionWindow_frame [OF refl, of example_xserver 30 9 1920 1080]
    PositionWindow_frame [OF refl, of example_xserver 20 9 1920 1080]
    a m
  show ?thesis by (simp add: example_attr_def)
qed






text \<open>
  C4 fails on the code. Started without a file argument, \<^verbatim>\<open>main\<close> sets the usage
  error, skips every step of the start and then evaluates
  \<^verbatim>\<open>ConnectionNumber(pX11Display)\<close> with the display pointer still \<^verbatim>\<open>NULL\<close>. When an
  engine window already exists, the start stops before \<^verbatim>\<open>XCreateWindow\<close>, and the
  teardown tests \<^verbatim>\<open>wInput\<close>, which was never assigned: with a non-zero value left
  in it, \<^verbatim>\<open>XDestroyWindow\<close> is called on a window the program never created.
\<close>

theorem main_teardown_unacquired:
  "main (example_env\<lparr>be_argc := 1\<rparr>) = Inl NullPointerDereference
   \<and> main (example_env\<lparr>be_XOpenDisplay := 0\<rparr>) = Inl NullPointerDereference
   \<and> main (example_env\<lparr>be_FindVlcWindow_preflight := 0\<rparr>)
       = Inr [TaskbarRaise_call 7 0, XDestroyWindow 7 4196432, XCloseDisplay 7]"
  by (simp add: main_def main_start_def main_initial_def main_arguments_def main_display_def
      main_preflight_def main_input_window_def main_engine_def main_metadata_def
      main_engage_def ConnectionNumber_def main_session_def main_teardown_def running_def
      example_env_def Let_def ERROR_FSPLAYER_USAGE_def ERROR_FSPLAYER_X11_def
      ERROR_FSPLAYER_VLCRUN_def ERROR_FSPLAYER_FAIL_def example_cycle_playing_def)

end
